theory Spec2Isabelle
  imports Main "HOL-Library.Word"
begin

unbundle bit_operations_syntax

section \<open>Content identifier (models: \<open>generateID\<close>, \<open>ValidIDPattern\<close>)\<close>

text \<open>
  \<open>generateID\<close> hashes the bytes of the file path with \<open>crypto/sha256\<close> and hex-encodes the
  first \<open>SongIDLength = 16\<close> bytes with \<open>encoding/hex\<close>. Both library functions are written
  out here: SHA-256 as in FIPS 180-4 on 32-bit words, the digest as the 8-tuple of words that
  Go's \<open>[32]byte\<close> holds in big-endian order.
\<close>

type_synonym u32 = "32 word"
type_synonym byte = "8 word"
type_synonym digest = "u32 \<times> u32 \<times> u32 \<times> u32 \<times> u32 \<times> u32 \<times> u32 \<times> u32"

definition rotr :: "nat \<Rightarrow> u32 \<Rightarrow> u32" where
  "rotr n x = (drop_bit n x) OR (push_bit (32 - n) x)"

text \<open>The round constants, eight to a row.\<close>

definition K256 :: "u32 list" where
  "K256 =
     [0x428a2f98, 0x71374491, 0xb5c0fbcf, 0xe9b5dba5, 0x3956c25b, 0x59f111f1, 0x923f82a4, 0xab1c5ed5]
     @ [0xd807aa98, 0x12835b01, 0x243185be, 0x550c7dc3, 0x72be5d74, 0x80deb1fe, 0x9bdc06a7, 0xc19bf174]
     @ [0xe49b69c1, 0xefbe4786, 0x0fc19dc6, 0x240ca1cc, 0x2de92c6f, 0x4a7484aa, 0x5cb0a9dc, 0x76f988da]
     @ [0x983e5152, 0xa831c66d, 0xb00327c8, 0xbf597fc7, 0xc6e00bf3, 0xd5a79147, 0x06ca6351, 0x14292967]
     @ [0x27b70a85, 0x2e1b2138, 0x4d2c6dfc, 0x53380d13, 0x650a7354, 0x766a0abb, 0x81c2c92e, 0x92722c85]
     @ [0xa2bfe8a1, 0xa81a664b, 0xc24b8b70, 0xc76c51a3, 0xd192e819, 0xd6990624, 0xf40e3585, 0x106aa070]
     @ [0x19a4c116, 0x1e376c08, 0x2748774c, 0x34b0bcb5, 0x391c0cb3, 0x4ed8aa4a, 0x5b9cca4f, 0x682e6ff3]
     @ [0x748f82ee, 0x78a5636f, 0x84c87814, 0x8cc70208, 0x90befffa, 0xa4506ceb, 0xbef9a3f7, 0xc67178f2]"

definition init256 :: digest where
  "init256 = (0x6a09e667, 0xbb67ae85, 0x3c6ef372, 0xa54ff53a,
              0x510e527f, 0x9b05688c, 0x1f83d9ab, 0x5be0cd19)"

definition be32 :: "byte list \<Rightarrow> u32" where
  "be32 bs = foldl (\<lambda>acc b. push_bit 8 acc OR ucast b) 0 bs"

fun chunks4 :: "byte list \<Rightarrow> u32 list" where
  "chunks4 (a # b # c # d # rest) = be32 [a, b, c, d] # chunks4 rest"
| "chunks4 _ = []"

text \<open>The message schedule: 48 more words after the 16 of the block.\<close>

fun extend :: "nat \<Rightarrow> u32 list \<Rightarrow> u32 list" where
  "extend 0 w = w"
| "extend (Suc n) w =
     (let i = length w;
          v1 = w ! (i - 2); v0 = w ! (i - 15);
          t1 = rotr 17 v1 XOR rotr 19 v1 XOR drop_bit 10 v1;
          t0 = rotr 7 v0 XOR rotr 18 v0 XOR drop_bit 3 v0
      in extend n (w @ [t1 + w ! (i - 7) + t0 + w ! (i - 16)]))"

fun round256 :: "digest \<Rightarrow> u32 \<times> u32 \<Rightarrow> digest" where
  "round256 (a, b, c, d, e, f, g, h) (k, w) =
     (let t1 = h + (rotr 6 e XOR rotr 11 e XOR rotr 25 e) + ((e AND f) XOR (NOT e AND g)) + k + w;
          t2 = (rotr 2 a XOR rotr 13 a XOR rotr 22 a) + ((a AND b) XOR (a AND c) XOR (b AND c))
      in (t1 + t2, a, b, c, d + t1, e, f, g))"

fun add_digest :: "digest \<Rightarrow> digest \<Rightarrow> digest" where
  "add_digest (a, b, c, d, e, f, g, h) (a', b', c', d', e', f', g', h') =
     (a + a', b + b', c + c', d + d', e + e', f + f', g + g', h + h')"

definition block256 :: "digest \<Rightarrow> byte list \<Rightarrow> digest" where
  "block256 dg blk = add_digest dg (foldl round256 dg (zip K256 (extend 48 (chunks4 blk))))"

fun blocks256 :: "nat \<Rightarrow> digest \<Rightarrow> byte list \<Rightarrow> digest" where
  "blocks256 0 dg bs = dg"
| "blocks256 (Suc n) dg bs = blocks256 n (block256 dg (take 64 bs)) (drop 64 bs)"

definition u64_be :: "64 word \<Rightarrow> byte list" where
  "u64_be n = map (\<lambda>i. ucast (drop_bit (8 * (7 - i)) n)) [0..<8]"

text \<open>Padding: the byte 0x80, zeros up to 56 modulo 64, the bit length as 64 bits.\<close>

definition pad256 :: "byte list \<Rightarrow> byte list" where
  "pad256 m = m @ [0x80] @ replicate ((119 - length m mod 64) mod 64) 0
                @ u64_be (push_bit 3 (of_nat (length m)))"

definition u32_be :: "u32 \<Rightarrow> byte list" where
  "u32_be w = [ucast (drop_bit 24 w), ucast (drop_bit 16 w), ucast (drop_bit 8 w), ucast w]"

fun digest_bytes :: "digest \<Rightarrow> byte list" where
  "digest_bytes (a, b, c, d, e, f, g, h) =
     u32_be a @ u32_be b @ u32_be c @ u32_be d @ u32_be e @ u32_be f @ u32_be g @ u32_be h"

definition Sum256 :: "byte list \<Rightarrow> byte list" where
  "Sum256 m = (let p = pad256 m in digest_bytes (blocks256 (length p div 64) init256 p))"

text \<open>\<open>encoding/hex\<close>: two characters of \<open>hextable\<close> per byte, high nibble first.\<close>

definition hextable :: string where
  "hextable = ''0123456789abcdef''"

definition EncodeToString :: "byte list \<Rightarrow> string" where
  "EncodeToString bs =
     concat (map (\<lambda>b. [hextable ! unat (drop_bit 4 b), hextable ! unat (b AND 0x0f)]) bs)"

text \<open>A Go string is its bytes; a \<open>char\<close> is one byte.\<close>

definition bytes_of :: "string \<Rightarrow> byte list" where
  "bytes_of s = map (\<lambda>c. of_nat (of_char c)) s"

definition SongIDLength :: nat where
  "SongIDLength = 16"

definition generateID :: "string \<Rightarrow> string" where
  "generateID filePath = EncodeToString (take SongIDLength (Sum256 (bytes_of filePath)))"

text \<open>
  \<open>ValidIDPattern\<close> is the regular expression \<open>^[a-f0-9]{32}$\<close>; in Go's syntax \<open>$\<close> without
  the multi-line flag matches only at the end of the text, so \<open>MatchString\<close> holds exactly
  for the strings of 32 characters of the class.
\<close>

definition isLowerHex :: "char \<Rightarrow> bool" where
  "isLowerHex c = (let n = (of_char c :: nat) in (97 \<le> n \<and> n \<le> 102) \<or> (48 \<le> n \<and> n \<le> 57))"

definition MatchValidID :: "string \<Rightarrow> bool" where
  "MatchValidID s = (length s = 32 \<and> list_all isLowerHex s)"

section \<open>Strings, paths and numbers of the Go library\<close>

text \<open>
  \<open>strings.ToLower\<close> on ASCII: the letters A to Z move to a to z. Bytes from 0x80 on are
  kept as they are (Go maps them by Unicode rune; file extensions of the supported formats
  are ASCII).
\<close>

definition toLowerChar :: "char \<Rightarrow> char" where
  "toLowerChar c =
     (case map_of (zip ''ABCDEFGHIJKLMNOPQRSTUVWXYZ'' ''abcdefghijklmnopqrstuvwxyz'') c of
        Some l \<Rightarrow> l
      | None \<Rightarrow> c)"

definition ToLower :: "string \<Rightarrow> string" where
  "ToLower s = map toLowerChar s"

definition HasPrefix :: "string \<Rightarrow> string \<Rightarrow> bool" where
  "HasPrefix s pre = (length pre \<le> length s \<and> take (length pre) s = pre)"

definition HasSuffix :: "string \<Rightarrow> string \<Rightarrow> bool" where
  "HasSuffix s suf = (length suf \<le> length s \<and> drop (length s - length suf) s = suf)"

definition TrimPrefix :: "string \<Rightarrow> string \<Rightarrow> string" where
  "TrimPrefix s pre = (if HasPrefix s pre then drop (length pre) s else s)"

definition TrimSuffix :: "string \<Rightarrow> string \<Rightarrow> string" where
  "TrimSuffix s suf = (if HasSuffix s suf then take (length s - length suf) s else s)"

fun Contains :: "string \<Rightarrow> string \<Rightarrow> bool" where
  "Contains [] sub = (sub = [])"
| "Contains (c # cs) sub = (HasPrefix (c # cs) sub \<or> Contains cs sub)"

text \<open>\<open>strings.Split s sep\<close> for a separator of one character.\<close>

fun Split :: "string \<Rightarrow> char \<Rightarrow> string list" where
  "Split [] sep = [[]]"
| "Split (c # cs) sep =
     (if c = sep then [] # Split cs sep
      else (case Split cs sep of p # ps \<Rightarrow> (c # p) # ps | [] \<Rightarrow> [[c]]))"

text \<open>
  \<open>filepath.Ext\<close> walks back from the end of the path to the first separator and returns
  the suffix that starts at the first dot it meets.
\<close>

fun extScan :: "string \<Rightarrow> string \<Rightarrow> string" where
  "extScan [] acc = []"
| "extScan (c # rs) acc =
     (if c = CHR ''/'' then [] else if c = CHR ''.'' then c # acc else extScan rs (c # acc))"

definition Ext :: "string \<Rightarrow> string" where
  "Ext path = extScan (rev path) []"

definition Base :: "string \<Rightarrow> string" where
  "Base path =
     (if path = [] then ''.''
      else let p = rev (dropWhile (\<lambda>c. c = CHR ''/'') (rev path));
               e = rev (takeWhile (\<lambda>c. c \<noteq> CHR ''/'') (rev p))
           in if e = [] then ''/'' else e)"

text \<open>
  \<open>strconv.ParseInt s 10 64\<close>: an optional sign, then one or more decimal digits; a value
  outside the 64-bit signed range is an error, as is any other character.
\<close>

definition isDigit :: "char \<Rightarrow> bool" where
  "isDigit c = (let n = (of_char c :: nat) in 48 \<le> n \<and> n \<le> 57)"

definition digitsVal :: "string \<Rightarrow> nat" where
  "digitsVal ds = foldl (\<lambda>acc c. acc * 10 + (of_char c - 48)) 0 ds"

definition ParseInt :: "string \<Rightarrow> int option" where
  "ParseInt s =
     (if s = [] then None
      else let neg = (hd s = CHR ''-'');
               ds = (if hd s = CHR ''+'' \<or> hd s = CHR ''-'' then tl s else s)
           in if ds = [] \<or> \<not> list_all isDigit ds then None
              else let un = digitsVal ds
                   in if \<not> neg \<and> 2 ^ 63 \<le> un then None
                      else if neg \<and> 2 ^ 63 < un then None
                      else Some (if neg then - int un else int un))"

text \<open>\<open>fmt.Sprintf "%d"\<close> of an integer.\<close>

fun dec :: "nat \<Rightarrow> string" where
  "dec n = (if n < 10 then [''0123456789'' ! n] else dec (n div 10) @ [''0123456789'' ! (n mod 10)])"

definition itoa :: "int \<Rightarrow> string" where
  "itoa i = (if i < 0 then CHR ''-'' # dec (nat (- i)) else dec (nat i))"

section \<open>Songs (models: \<open>Song\<close>, \<open>NewSong\<close>)\<close>

record Song =
  ID :: string
  Title :: string
  Artist :: string
  Album :: string
  Duration :: int
  FilePath :: string
  FileName :: string
  FileSize :: int
  AddedAt :: int
  Format :: string

text \<open>
  What \<open>NewSong\<close> reads from outside: the modification time \<open>os.Stat\<close> reports (if it
  succeeds), the tags \<open>tag.ReadFrom\<close> extracts (if the file opens and parses), and the
  clock. Times are nanoseconds counted from Go's zero \<open>time.Time\<close>.
\<close>

record Metadata =
  md_Title :: string
  md_Artist :: string
  md_Album :: string

record probe =
  pr_modTime :: "int option"
  pr_tags :: "Metadata option"
  pr_now :: int

definition NewSong :: "probe \<Rightarrow> string \<Rightarrow> int \<Rightarrow> Song" where
  "NewSong pr filePath fileSize =
     (let fileName = Base filePath;
          ext = Ext fileName;
          title0 = TrimSuffix fileName ext;
          addedAt = (case pr_modTime pr of Some t \<Rightarrow> t | None \<Rightarrow> pr_now pr);
          title = (case pr_tags pr of
                     Some m \<Rightarrow> if md_Title m \<noteq> [] then md_Title m else title0
                   | None \<Rightarrow> title0);
          artist = (case pr_tags pr of
                      Some m \<Rightarrow> if md_Artist m \<noteq> [] then md_Artist m else ''Unknown''
                    | None \<Rightarrow> ''Unknown'');
          album = (case pr_tags pr of
                     Some m \<Rightarrow> if md_Album m \<noteq> [] then md_Album m else ''Unknown''
                   | None \<Rightarrow> ''Unknown'')
      in \<lparr>ID = generateID filePath, Title = title, Artist = artist, Album = album,
          Duration = 0, FilePath = filePath, FileName = fileName, FileSize = fileSize,
          AddedAt = addedAt, Format = ToLower ext\<rparr>)"

section \<open>Library index (models: \<open>MusicScanner\<close>)\<close>

text \<open>
  The scanner holds pointers to songs (\<open>[]*models.Song\<close>, \<open>map[string]*models.Song\<close>), and
  callers receive pointers too, so the songs live in an explicit store: the heap is the list
  of the \<open>Song\<close> objects allocated so far, a pointer is \<open>None\<close> (nil) or the position of an
  object, and allocation appends. A non-nil pointer of the program always points to an
  allocated object.
\<close>

type_synonym heap = "Song list"
type_synonym ptr = "nat option"

record MusicScanner =
  directory :: string
  supportedFormats :: "string list"
  songs :: "ptr list"
  songIndex :: "string \<rightharpoonup> ptr"
  lastScan :: int
  cacheTTL :: int

text \<open>
  \<open>time.Duration\<close> is a 64-bit count of nanoseconds: the product in \<open>NewMusicScanner\<close> wraps,
  and \<open>time.Since\<close> saturates at the largest and smallest duration.
\<close>

definition wrap64 :: "int \<Rightarrow> int" where
  "wrap64 x = (x + 2 ^ 63) mod 2 ^ 64 - 2 ^ 63"

definition Minute :: int where
  "Minute = 60000000000"

definition Since :: "int \<Rightarrow> int \<Rightarrow> int" where
  "Since now t = max (- (2 ^ 63)) (min (2 ^ 63 - 1) (now - t))"

definition NewMusicScanner :: "string \<Rightarrow> string list \<Rightarrow> int \<Rightarrow> MusicScanner" where
  "NewMusicScanner dir formats cacheTTLMinutes =
     \<lparr>directory = dir,
      supportedFormats = (if length formats = 0 then [''.mp3''] else formats),
      songs = [],
      songIndex = Map.empty,
      lastScan = 0,
      cacheTTL = wrap64 ((if cacheTTLMinutes \<le> 0 then 5 else cacheTTLMinutes) * Minute)\<rparr>"

text \<open>
  The file system as one scan meets it. \<open>filepath.Walk\<close> calls the function once per path
  of the tree until the function returns an error: a \<open>visit\<close> is one such call, with the
  path, the \<open>os.FileInfo\<close> fields the function reads, the error \<open>Walk\<close> passes in, whether
  the context is already cancelled at that moment, and what \<open>NewSong\<close> finds. The clock is
  read at the first staleness check, at the second one and when the walk has ended.
\<close>

record visit =
  v_path :: string
  v_isDir :: bool
  v_size :: int
  v_err :: "string option"
  v_ctxDone :: bool
  v_probe :: probe

record fs_env =
  root_exists :: bool
  visits :: "visit list"
  clk_check1 :: int
  clk_check2 :: int
  clk_done :: int

datatype walk_error = CtxErr | FsErr string

datatype scan_error = DirNotExist string | ScanFailed walk_error

text \<open>The loop over \<open>supportedFormats\<close>, which stops at the first match.\<close>

fun matchFormat :: "string \<Rightarrow> string list \<Rightarrow> bool" where
  "matchFormat ext [] = False"
| "matchFormat ext (supported # rest) =
     (if ext = ToLower supported then True else matchFormat ext rest)"

definition walkFn :: "visit \<Rightarrow> heap \<times> MusicScanner \<Rightarrow> walk_error option \<times> heap \<times> MusicScanner" where
  "walkFn v w =
     (case w of (h, s) \<Rightarrow>
        if v_ctxDone v then (Some CtxErr, h, s)
        else (case v_err v of
                Some e \<Rightarrow> (Some (FsErr e), h, s)
              | None \<Rightarrow>
                  if v_isDir v then (None, h, s)
                  else if matchFormat (ToLower (Ext (v_path v))) (supportedFormats s)
                  then (let song = NewSong (v_probe v) (v_path v) (v_size v);
                            p = Some (length h)
                        in (None, h @ [song],
                            s\<lparr>songs := songs s @ [p], songIndex := (songIndex s)(ID song \<mapsto> p)\<rparr>))
                  else (None, h, s)))"

fun Walk :: "visit list \<Rightarrow> heap \<times> MusicScanner \<Rightarrow> walk_error option \<times> heap \<times> MusicScanner" where
  "Walk [] w = (None, w)"
| "Walk (v # vs) w =
     (case walkFn v w of
        (Some e, w') \<Rightarrow> (Some e, w')
      | (None, w') \<Rightarrow> Walk vs w')"

definition scanInternal ::
    "fs_env \<Rightarrow> heap \<times> MusicScanner \<Rightarrow> (scan_error + ptr list) \<times> heap \<times> MusicScanner" where
  "scanInternal env w =
     (case w of (h, s) \<Rightarrow>
        let s0 = s\<lparr>songs := [], songIndex := Map.empty\<rparr>
        in if \<not> root_exists env then (Inl (DirNotExist (directory s)), h, s0)
           else (case Walk (visits env) (h, s0) of
                   (Some e, h', s') \<Rightarrow> (Inl (ScanFailed e), h', s')
                 | (None, h', s') \<Rightarrow> (Inr (songs s'), h', s'\<lparr>lastScan := clk_done env\<rparr>)))"

definition cacheValid :: "int \<Rightarrow> MusicScanner \<Rightarrow> bool" where
  "cacheValid now s = (Since now (lastScan s) < cacheTTL s \<and> length (songs s) > 0)"

text \<open>
  \<open>Scan\<close>: on a valid cache a new slice with the same pointers is returned (\<open>copy\<close> copies
  the pointers, not the songs); otherwise \<open>scanInternal\<close> runs. The two checks are the one
  under the read lock and the one under the write lock.
\<close>

definition Scan ::
    "fs_env \<Rightarrow> heap \<times> MusicScanner \<Rightarrow> (scan_error + ptr list) \<times> heap \<times> MusicScanner" where
  "Scan env w =
     (case w of (h, s) \<Rightarrow>
        if cacheValid (clk_check1 env) s then (Inr (songs s), h, s)
        else if cacheValid (clk_check2 env) s then (Inr (songs s), h, s)
        else scanInternal env (h, s))"

definition Refresh :: "fs_env \<Rightarrow> heap \<times> MusicScanner \<Rightarrow> scan_error option \<times> heap \<times> MusicScanner" where
  "Refresh env w =
     (case scanInternal env w of
        (Inl e, w') \<Rightarrow> (Some e, w')
      | (Inr _, w') \<Rightarrow> (None, w'))"

text \<open>\<open>GetSongs\<close>: every non-nil song is copied into a newly allocated object.\<close>

fun copySongs :: "ptr list \<Rightarrow> heap \<Rightarrow> ptr list \<times> heap" where
  "copySongs [] h = ([], h)"
| "copySongs (None # ps) h = (case copySongs ps h of (r, h') \<Rightarrow> (None # r, h'))"
| "copySongs (Some a # ps) h =
     (case copySongs ps (h @ [h ! a]) of (r, h') \<Rightarrow> (Some (length h) # r, h'))"

definition GetSongs :: "heap \<times> MusicScanner \<Rightarrow> ptr list \<times> heap \<times> MusicScanner" where
  "GetSongs w = (case w of (h, s) \<Rightarrow> (case copySongs (songs s) h of (r, h') \<Rightarrow> (r, h', s)))"

definition GetSongCount :: "heap \<times> MusicScanner \<Rightarrow> nat" where
  "GetSongCount w = length (songs (snd w))"

definition GetSongByID :: "string \<Rightarrow> heap \<times> MusicScanner \<Rightarrow> ptr \<times> heap \<times> MusicScanner" where
  "GetSongByID ident w =
     (case w of (h, s) \<Rightarrow>
        (case songIndex s ident of
           None \<Rightarrow> (None, h, s)
         | Some None \<Rightarrow> (None, h, s)
         | Some (Some a) \<Rightarrow> (Some (length h), h @ [h ! a], s)))"

text \<open>The operations of the index, for statements about any sequence of calls.\<close>

datatype index_op = OpScan | OpRefresh | OpLookup string | OpList | OpCount

fun run_op :: "fs_env \<times> index_op \<Rightarrow> heap \<times> MusicScanner \<Rightarrow> heap \<times> MusicScanner" where
  "run_op (env, OpScan) w = snd (Scan env w)"
| "run_op (env, OpRefresh) w = snd (Refresh env w)"
| "run_op (env, OpLookup ident) w = snd (GetSongByID ident w)"
| "run_op (env, OpList) w = snd (GetSongs w)"
| "run_op (env, OpCount) w = w"

definition run_ops :: "(fs_env \<times> index_op) list \<Rightarrow> heap \<times> MusicScanner \<Rightarrow> heap \<times> MusicScanner" where
  "run_ops steps w = foldl (\<lambda>w step. run_op step w) w steps"

text \<open>
  The visits one walk indexes: those before the first visit that ends the walk (a cancelled
  context or an error passed in by \<open>Walk\<close>) that are files of a supported format.
\<close>

fun indexed :: "string list \<Rightarrow> visit list \<Rightarrow> visit list" where
  "indexed fmts [] = []"
| "indexed fmts (v # vs) =
     (if v_ctxDone v \<or> v_err v \<noteq> None then []
      else if \<not> v_isDir v \<and> matchFormat (ToLower (Ext (v_path v))) fmts
      then v # indexed fmts vs
      else indexed fmts vs)"

text \<open>The error that ends the walk, if a visit does.\<close>

fun walkFailure :: "visit list \<Rightarrow> walk_error option" where
  "walkFailure [] = None"
| "walkFailure (v # vs) =
     (if v_ctxDone v then Some CtxErr
      else (case v_err v of Some e \<Rightarrow> Some (FsErr e) | None \<Rightarrow> walkFailure vs))"

definition songOf :: "visit \<Rightarrow> Song" where
  "songOf v = NewSong (v_probe v) (v_path v) (v_size v)"

text \<open>The songs a list of pointers stands for, and the snapshot a caller can observe.\<close>

definition deref :: "heap \<Rightarrow> ptr list \<Rightarrow> Song list" where
  "deref h ps = map (\<lambda>p. h ! the p) ps"

definition entryID :: "heap \<Rightarrow> ptr \<Rightarrow> string" where
  "entryID h p = ID (h ! the p)"

text \<open>
  Sequence and mapping agree: every entry of the sequence is an allocated song that the
  mapping returns for its id, and every id of the mapping belongs to exactly one entry of
  the sequence.
\<close>

definition consistent :: "heap \<times> MusicScanner \<Rightarrow> bool" where
  "consistent w =
     (case w of (h, s) \<Rightarrow>
        (\<forall>p \<in> set (songs s). \<exists>a. p = Some a \<and> a < length h \<and> songIndex s (ID (h ! a)) = Some p)
        \<and> (\<forall>ident \<in> dom (songIndex s).
              length (filter (\<lambda>p. entryID h p = ident) (songs s)) = 1))"

definition ids_distinct :: "string list \<Rightarrow> fs_env \<Rightarrow> bool" where
  "ids_distinct fmts env = distinct (map (\<lambda>v. generateID (v_path v)) (indexed fmts (visits env)))"


text \<open>
  The visits a call of \<open>scanInternal\<close> indexes: none when the root directory is missing.
\<close>

definition walked :: "fs_env \<Rightarrow> MusicScanner \<Rightarrow> visit list" where
  "walked env s = (if root_exists env then indexed (supportedFormats s) (visits env) else [])"

text \<open>
  What a failed scan leaves behind, from the state \<open>w\<close> before to the state \<open>w'\<close> after:
  the time of the last scan and the configuration are as before, the songs allocated before
  are untouched, and the sequence holds the songs the failed call itself indexed.
\<close>

definition failed_scan_post :: "fs_env \<Rightarrow> heap \<times> MusicScanner \<Rightarrow> heap \<times> MusicScanner \<Rightarrow> bool" where
  "failed_scan_post env w w' =
     (lastScan (snd w') = lastScan (snd w) \<and> cacheTTL (snd w') = cacheTTL (snd w)
      \<and> directory (snd w') = directory (snd w)
      \<and> supportedFormats (snd w') = supportedFormats (snd w)
      \<and> take (length (fst w)) (fst w') = fst w
      \<and> deref (fst w') (songs (snd w')) = map songOf (walked env (snd w)))"

text \<open>What a caller can do with a pointer it was given: assign a field of the song.\<close>

definition callerSetTitle :: "ptr \<Rightarrow> string \<Rightarrow> heap \<Rightarrow> heap" where
  "callerSetTitle p t h = (case p of Some a \<Rightarrow> h[a := (h ! a)\<lparr>Title := t\<rparr>] | None \<Rightarrow> h)"

subsection \<open>A music directory for the examples\<close>

text \<open>
  The directory \<open>/music\<close> with \<open>a.mp3\<close> (11 bytes), \<open>b.txt\<close> and \<open>c.mp3\<close>; a scanner made
  with no format list and a TTL of 5 minutes; the same scanner after a scan at time 1000;
  a scan that finds the root missing, and one cancelled when the walk reaches \<open>b.txt\<close>.
\<close>

definition ex_probe :: probe where
  "ex_probe = \<lparr>pr_modTime = Some 500, pr_tags = None, pr_now = 900\<rparr>"

definition ex_file :: "string \<Rightarrow> int \<Rightarrow> visit" where
  "ex_file p n = \<lparr>v_path = p, v_isDir = False, v_size = n, v_err = None, v_ctxDone = False,
                  v_probe = ex_probe\<rparr>"

definition ex_dir :: "string \<Rightarrow> visit" where
  "ex_dir p = \<lparr>v_path = p, v_isDir = True, v_size = 4096, v_err = None, v_ctxDone = False,
               v_probe = ex_probe\<rparr>"

definition ex_env :: "visit list \<Rightarrow> int \<Rightarrow> fs_env" where
  "ex_env vs t = \<lparr>root_exists = True, visits = vs, clk_check1 = t, clk_check2 = t, clk_done = t\<rparr>"

definition ex_tree :: "visit list" where
  "ex_tree = [ex_dir ''/music'', ex_file ''/music/a.mp3'' 11, ex_file ''/music/b.txt'' 3,
              ex_file ''/music/c.mp3'' 7]"

definition ex_new :: "heap \<times> MusicScanner" where
  "ex_new = ([], NewMusicScanner ''/music'' [] 5)"

definition ex_scanned :: "heap \<times> MusicScanner" where
  "ex_scanned = snd (Scan (ex_env ex_tree 1000) ex_new)"

definition ex_missing :: fs_env where
  "ex_missing = (ex_env [] 2000)\<lparr>root_exists := False\<rparr>"

definition ex_cancelled :: fs_env where
  "ex_cancelled = ex_env [ex_dir ''/music'', ex_file ''/music/a.mp3'' 11,
                          (ex_file ''/music/b.txt'' 3)\<lparr>v_ctxDone := True\<rparr>,
                          ex_file ''/music/c.mp3'' 7] 2000"

definition ex_empty_scanned :: "heap \<times> MusicScanner" where
  "ex_empty_scanned = snd (Scan (ex_env [ex_dir ''/music''] 1000) ex_new)"

definition ex_mixed :: "visit list" where
  "ex_mixed = [ex_dir ''/music'', ex_file ''/music/A.MP3'' 5, ex_file ''/music/b.flac'' 3,
               ex_dir ''/music/x.mp3'']"

section \<open>Streaming (models: \<open>StreamHandler\<close>, \<open>StreamAudio\<close>, \<open>serveRange\<close>)\<close>

text \<open>
  The response a gin context builds: \<open>c.Header\<close> sets a header, \<open>c.Status\<close> the status
  code, \<open>c.JSON\<close> the status code, the JSON content type and the body. Of an \<open>APIError\<close>
  body only the \<open>Code\<close> field is kept. A context starts with status 200, no header and
  no body.
\<close>

datatype body = NoBody | JSONBody string | Bytes "byte list"

record response =
  status :: nat
  headers :: "(string \<times> string) list"
  body :: body

fun setHeader :: "string \<Rightarrow> string \<Rightarrow> (string \<times> string) list \<Rightarrow> (string \<times> string) list" where
  "setHeader k v [] = [(k, v)]"
| "setHeader k v ((k', v') # hs) = (if k' = k then (k, v) # hs else (k', v') # setHeader k v hs)"

definition Header :: "string \<Rightarrow> string \<Rightarrow> response \<Rightarrow> response" where
  "Header k v c = c\<lparr>headers := setHeader k v (headers c)\<rparr>"

definition Status :: "nat \<Rightarrow> response \<Rightarrow> response" where
  "Status code c = c\<lparr>status := code\<rparr>"

definition JSON :: "nat \<Rightarrow> string \<Rightarrow> response \<Rightarrow> response" where
  "JSON code err c =
     (Header ''Content-Type'' ''application/json; charset=utf-8'' c)\<lparr>status := code, body := JSONBody err\<rparr>"

definition newContext :: response where
  "newContext = \<lparr>status = 200, headers = [], body = NoBody\<rparr>"

definition getHeader :: "string \<Rightarrow> response \<Rightarrow> string option" where
  "getHeader k c = map_of (headers c) k"

text \<open>
  The operating system as one request meets it: \<open>filepath.Abs\<close> (\<open>None\<close> when it fails),
  \<open>os.Stat\<close>, \<open>os.Open\<close> and \<open>mime.TypeByExtension\<close> (the empty string when the extension
  is unknown). An open file is its bytes, and whether \<open>Seek\<close> on it fails.
\<close>

record FileInfo =
  fi_isDir :: bool
  fi_size :: int

datatype 'a io = OK 'a | NotExist | IOError

record osfile =
  f_bytes :: "byte list"
  f_seekFails :: bool

record os_env =
  e_abs :: "string \<Rightarrow> string option"
  e_stat :: "string \<Rightarrow> FileInfo io"
  e_open :: "string \<Rightarrow> osfile io"
  e_mime :: "string \<Rightarrow> string"

datatype event = EvScan | EvAbs string | EvStat string | EvOpen string

definition getMimeType :: "os_env \<Rightarrow> string \<Rightarrow> string" where
  "getMimeType env filename =
     (let ext = ToLower (Ext filename);
          mimeType = e_mime env ext
      in if mimeType = [] then
           (if ext = ''.mp3'' then ''audio/mpeg''
            else if ext = ''.flac'' then ''audio/flac''
            else if ext = ''.wav'' then ''audio/wav''
            else if ext = ''.m4a'' then ''audio/mp4''
            else if ext = ''.ogg'' then ''audio/ogg''
            else ''application/octet-stream'')
         else mimeType)"

record StreamHandler =
  musicDir :: string
  musicDirAbs :: string
  maxRangeSize :: int

definition NewStreamHandler :: "os_env \<Rightarrow> string \<Rightarrow> int \<Rightarrow> StreamHandler" where
  "NewStreamHandler env cfgDirectory cfgMaxRangeSize =
     \<lparr>musicDir = cfgDirectory,
      musicDirAbs = (case e_abs env cfgDirectory of Some a \<Rightarrow> a | None \<Rightarrow> cfgDirectory),
      maxRangeSize = cfgMaxRangeSize\<rparr>"

text \<open>
  \<open>serveRange\<close>. \<open>io.CopyN\<close> after \<open>Seek start\<close> writes the \<open>contentLength\<close> bytes of the file
  from \<open>start\<close> on, or fewer when the file ends before.
\<close>

definition serveRange ::
    "StreamHandler \<Rightarrow> os_env \<Rightarrow> osfile \<Rightarrow> int \<Rightarrow> string \<Rightarrow> string \<Rightarrow> response \<Rightarrow> response" where
  "serveRange h env file fileSize rangeHeader filename c =
     (let ranges = TrimPrefix rangeHeader ''bytes='';
          parts = Split ranges (CHR ''-'')
      in if length parts \<noteq> 2 then JSON 400 ''BAD_REQUEST'' c
         else
           (case (if parts ! 0 \<noteq> [] then ParseInt (parts ! 0) else Some 0) of
              None \<Rightarrow> JSON 400 ''BAD_REQUEST'' c
            | Some start \<Rightarrow>
                if start < 0 then JSON 400 ''BAD_REQUEST'' c
                else
                  (case (if parts ! 1 \<noteq> [] then ParseInt (parts ! 1) else Some (fileSize - 1)) of
                     None \<Rightarrow> JSON 400 ''BAD_REQUEST'' c
                   | Some end \<Rightarrow>
                       if parts ! 1 \<noteq> [] \<and> end < 0 then JSON 400 ''BAD_REQUEST'' c
                       else if start < 0 \<or> end \<ge> fileSize \<or> start > end then
                         Status 416 (Header ''Content-Range'' (''bytes */'' @ itoa fileSize) c)
                       else
                         (let contentLength = end - start + 1
                          in if contentLength > maxRangeSize h then JSON 400 ''BAD_REQUEST'' c
                             else
                               (let c1 = Header ''Content-Range''
                                           (''bytes '' @ itoa start @ ''-'' @ itoa end @ ''/'' @ itoa fileSize) c;
                                    c2 = Header ''Content-Length'' (itoa contentLength) c1;
                                    c3 = Header ''Content-Type'' (getMimeType env filename) c2;
                                    c4 = Header ''Content-Disposition''
                                           (''inline; filename='' @ [CHR 0x22] @ filename @ [CHR 0x22]) c3;
                                    c5 = Header ''Accept-Ranges'' ''bytes'' c4;
                                    c6 = Status 206 c5
                                in if f_seekFails file then JSON 500 ''INTERNAL_ERROR'' c6
                                   else c6\<lparr>body := Bytes (take (nat contentLength)
                                                            (drop (nat start) (f_bytes file)))\<rparr>)))))"

text \<open>
  \<open>StreamAudio\<close>. The handler holds a \<open>services.Scanner\<close>; what it uses of it is the result
  of one \<open>Scan\<close> call, the songs as values (it reads \<open>ID\<close> and \<open>FilePath\<close>). The result is
  the response and the accesses made, in order.
\<close>

fun findSong :: "string \<Rightarrow> Song list \<Rightarrow> string option" where
  "findSong ident [] = None"
| "findSong ident (song # rest) = (if ID song = ident then Some (FilePath song) else findSong ident rest)"

definition StreamAudio ::
    "StreamHandler \<Rightarrow> os_env \<Rightarrow> (scan_error + Song list) \<Rightarrow> string \<Rightarrow> string
       \<Rightarrow> response \<times> event list" where
  "StreamAudio h env scan ident rangeHeader =
     (let c = newContext in
      if \<not> MatchValidID ident then (JSON 400 ''BAD_REQUEST'' c, [])
      else
        (case scan of
           Inl e \<Rightarrow> (JSON 500 ''INTERNAL_ERROR'' c, [EvScan])
         | Inr songlist \<Rightarrow>
             (case findSong ident songlist of
                None \<Rightarrow> (JSON 404 ''NOT_FOUND'' c, [EvScan])
              | Some songPath \<Rightarrow>
                  (case e_abs env songPath of
                     None \<Rightarrow> (JSON 500 ''INTERNAL_ERROR'' c, [EvScan, EvAbs songPath])
                   | Some cleanPath \<Rightarrow>
                       if \<not> HasPrefix cleanPath (musicDirAbs h)
                       then (JSON 403 ''FORBIDDEN'' c, [EvScan, EvAbs songPath])
                       else
                         (case e_stat env cleanPath of
                            NotExist \<Rightarrow>
                              (JSON 404 ''NOT_FOUND'' c, [EvScan, EvAbs songPath, EvStat cleanPath])
                          | IOError \<Rightarrow>
                              (JSON 500 ''INTERNAL_ERROR'' c, [EvScan, EvAbs songPath, EvStat cleanPath])
                          | OK fileInfo \<Rightarrow>
                              if fi_isDir fileInfo
                              then (JSON 403 ''FORBIDDEN'' c, [EvScan, EvAbs songPath, EvStat cleanPath])
                              else
                                (let tr = [EvScan, EvAbs songPath, EvStat cleanPath, EvOpen cleanPath]
                                 in case e_open env cleanPath of
                                      NotExist \<Rightarrow> (JSON 500 ''INTERNAL_ERROR'' c, tr)
                                    | IOError \<Rightarrow> (JSON 500 ''INTERNAL_ERROR'' c, tr)
                                    | OK file \<Rightarrow>
                                        (let fileSize = fi_size fileInfo
                                         in if rangeHeader \<noteq> []
                                            then (serveRange h env file fileSize rangeHeader
                                                    (Base cleanPath) c, tr)
                                            else
                                              (let c1 = Header ''Content-Type'' (getMimeType env cleanPath) c;
                                                   c2 = Header ''Content-Length'' (itoa fileSize) c1;
                                                   c3 = Header ''Content-Disposition''
                                                          (''inline; filename='' @ [CHR 0x22]
                                                             @ Base cleanPath @ [CHR 0x22]) c2;
                                                   c4 = Header ''Accept-Ranges'' ''bytes'' c3;
                                                   c5 = Status 200 c4
                                               in (c5\<lparr>body := Bytes (f_bytes file)\<rparr>, tr)))))))))"

text \<open>
  The older handler of \<open>handlers/stream.go\<close>: the same steps with another first check (an
  id is rejected when it is empty or contains \<open>..\<close>, a slash or a backslash), the constant
  \<open>MaxRangeSize\<close> and the fixed content type \<open>audio/mpeg\<close>.
\<close>

definition MaxRangeSize :: int where
  "MaxRangeSize = 100 * 1024 * 1024"

definition serveRange_legacy :: "osfile \<Rightarrow> int \<Rightarrow> string \<Rightarrow> string \<Rightarrow> response \<Rightarrow> response" where
  "serveRange_legacy file fileSize rangeHeader filename c =
     (let ranges = TrimPrefix rangeHeader ''bytes='';
          parts = Split ranges (CHR ''-'')
      in if length parts \<noteq> 2 then JSON 400 ''BAD_REQUEST'' c
         else
           (case (if parts ! 0 \<noteq> [] then ParseInt (parts ! 0) else Some 0) of
              None \<Rightarrow> JSON 400 ''BAD_REQUEST'' c
            | Some start \<Rightarrow>
                if start < 0 then JSON 400 ''BAD_REQUEST'' c
                else
                  (case (if parts ! 1 \<noteq> [] then ParseInt (parts ! 1) else Some (fileSize - 1)) of
                     None \<Rightarrow> JSON 400 ''BAD_REQUEST'' c
                   | Some end \<Rightarrow>
                       if parts ! 1 \<noteq> [] \<and> end < 0 then JSON 400 ''BAD_REQUEST'' c
                       else if start < 0 \<or> end \<ge> fileSize \<or> start > end then
                         Status 416 (Header ''Content-Range'' (''bytes */'' @ itoa fileSize) c)
                       else
                         (let contentLength = end - start + 1
                          in if contentLength > MaxRangeSize then JSON 400 ''BAD_REQUEST'' c
                             else
                               (let c1 = Header ''Content-Range''
                                           (''bytes '' @ itoa start @ ''-'' @ itoa end @ ''/'' @ itoa fileSize) c;
                                    c2 = Header ''Content-Length'' (itoa contentLength) c1;
                                    c3 = Header ''Content-Type'' ''audio/mpeg'' c2;
                                    c4 = Header ''Content-Disposition''
                                           (''inline; filename='' @ [CHR 0x22] @ filename @ [CHR 0x22]) c3;
                                    c5 = Header ''Accept-Ranges'' ''bytes'' c4;
                                    c6 = Status 206 c5
                                in if f_seekFails file then JSON 500 ''INTERNAL_ERROR'' c6
                                   else c6\<lparr>body := Bytes (take (nat contentLength)
                                                            (drop (nat start) (f_bytes file)))\<rparr>)))))"

definition legacyIDRejected :: "string \<Rightarrow> bool" where
  "legacyIDRejected ident =
     (ident = [] \<or> Contains ident ''..'' \<or> Contains ident ''/'' \<or> Contains ident [CHR 0x5C])"

definition StreamAudio_legacy ::
    "string \<Rightarrow> os_env \<Rightarrow> (scan_error + Song list) \<Rightarrow> string \<Rightarrow> string \<Rightarrow> response \<times> event list" where
  "StreamAudio_legacy rootAbs env scan ident rangeHeader =
     (let c = newContext in
      if legacyIDRejected ident then (JSON 400 ''BAD_REQUEST'' c, [])
      else
        (case scan of
           Inl e \<Rightarrow> (JSON 500 ''INTERNAL_ERROR'' c, [EvScan])
         | Inr songlist \<Rightarrow>
             (case findSong ident songlist of
                None \<Rightarrow> (JSON 404 ''NOT_FOUND'' c, [EvScan])
              | Some songPath \<Rightarrow>
                  (case e_abs env songPath of
                     None \<Rightarrow> (JSON 500 ''INTERNAL_ERROR'' c, [EvScan, EvAbs songPath])
                   | Some cleanPath \<Rightarrow>
                       if \<not> HasPrefix cleanPath rootAbs
                       then (JSON 403 ''FORBIDDEN'' c, [EvScan, EvAbs songPath])
                       else
                         (case e_stat env cleanPath of
                            NotExist \<Rightarrow>
                              (JSON 404 ''NOT_FOUND'' c, [EvScan, EvAbs songPath, EvStat cleanPath])
                          | IOError \<Rightarrow>
                              (JSON 500 ''INTERNAL_ERROR'' c, [EvScan, EvAbs songPath, EvStat cleanPath])
                          | OK fileInfo \<Rightarrow>
                              if fi_isDir fileInfo
                              then (JSON 403 ''FORBIDDEN'' c, [EvScan, EvAbs songPath, EvStat cleanPath])
                              else
                                (let tr = [EvScan, EvAbs songPath, EvStat cleanPath, EvOpen cleanPath]
                                 in case e_open env cleanPath of
                                      NotExist \<Rightarrow> (JSON 500 ''INTERNAL_ERROR'' c, tr)
                                    | IOError \<Rightarrow> (JSON 500 ''INTERNAL_ERROR'' c, tr)
                                    | OK file \<Rightarrow>
                                        (let fileSize = fi_size fileInfo
                                         in if rangeHeader \<noteq> []
                                            then (serveRange_legacy file fileSize rangeHeader
                                                    (Base cleanPath) c, tr)
                                            else
                                              (let c1 = Header ''Content-Type'' ''audio/mpeg'' c;
                                                   c2 = Header ''Content-Length'' (itoa fileSize) c1;
                                                   c3 = Header ''Content-Disposition''
                                                          (''inline; filename='' @ [CHR 0x22]
                                                             @ Base cleanPath @ [CHR 0x22]) c2;
                                                   c4 = Header ''Accept-Ranges'' ''bytes'' c3;
                                                   c5 = Status 200 c4
                                               in (c5\<lparr>body := Bytes (f_bytes file)\<rparr>, tr)))))))))"

subsection \<open>A server for the examples\<close>

text \<open>
  An operating system with the file \<open>/music/a.mp3\<close> (the 11 bytes \<open>hello world\<close>), the
  directory \<open>/music\<close> and, beside it, the file \<open>/music-private/secret.mp3\<close>; paths are
  absolute and clean, so \<open>filepath.Abs\<close> returns them as they are. The handler is made
  for the root \<open>/music\<close>.
\<close>

definition ex_os :: os_env where
  "ex_os =
     \<lparr>e_abs = (\<lambda>p. Some p),
      e_stat = (\<lambda>p. if p = ''/music/a.mp3'' then OK \<lparr>fi_isDir = False, fi_size = 11\<rparr>
                    else if p = ''/music-private/secret.mp3'' then OK \<lparr>fi_isDir = False, fi_size = 6\<rparr>
                    else if p = ''/music'' then OK \<lparr>fi_isDir = True, fi_size = 4096\<rparr>
                    else NotExist),
      e_open = (\<lambda>p. if p = ''/music/a.mp3''
                      then OK \<lparr>f_bytes = bytes_of ''hello world'', f_seekFails = False\<rparr>
                    else if p = ''/music-private/secret.mp3''
                      then OK \<lparr>f_bytes = bytes_of ''secret'', f_seekFails = False\<rparr>
                    else NotExist),
      e_mime = (\<lambda>ext. [])\<rparr>"

definition ex_handler :: StreamHandler where
  "ex_handler = NewStreamHandler ex_os ''/music'' (100 * 1024 * 1024)"

definition ex_song_a :: Song where
  "ex_song_a = NewSong ex_probe ''/music/a.mp3'' 11"

definition ex_song_outside :: Song where
  "ex_song_outside = NewSong ex_probe ''/music-private/secret.mp3'' 6"

definition ex_file_a :: osfile where
  "ex_file_a = \<lparr>f_bytes = bytes_of ''hello world'', f_seekFails = False\<rparr>"

section \<open>Properties of the content identifier\<close>

lemma length_u32_be: "length (u32_be w) = 4"
  by (simp add: u32_be_def)

lemma length_digest_bytes: "length (digest_bytes dg) = 32"
  by (cases dg rule: digest_bytes.cases) (simp add: length_u32_be)

lemma length_Sum256: "length (Sum256 m) = 32"
  by (simp add: Sum256_def Let_def length_digest_bytes)

lemma length_EncodeToString: "length (EncodeToString bs) = 2 * length bs"
  by (induction bs) (simp_all add: EncodeToString_def)

lemma hextable_lower_hex: "i < 16 \<Longrightarrow> isLowerHex (hextable ! i)"
proof -
  assume "i < 16"
  moreover have "list_all isLowerHex hextable"
    by (simp add: hextable_def isLowerHex_def)
  moreover have "length hextable = 16"
    by (simp add: hextable_def)
  ultimately show ?thesis
    by (simp add: list_all_length)
qed

lemma high_nibble_bound: "unat (drop_bit 4 (b :: byte)) < 16"
proof -
  have "unat b < 256"
    using unsigned_less [of b, where ?'a = nat] by simp
  then have "unat b div 16 < 16"
    by simp
  moreover have "unat (drop_bit 4 b) = unat b div 2 ^ 4"
    unfolding unat_drop_bit_eq by (simp add: drop_bit_eq_div)
  ultimately show ?thesis
    by simp
qed

lemma low_nibble_bound: "unat ((b :: byte) AND 0x0f) < 16"
proof -
  have "unat (b AND 15) \<le> unat (15 :: byte)"
    by (rule word_and_le1 [THEN word_le_nat_alt [THEN iffD1]])
  then show ?thesis by simp
qed

lemma EncodeToString_lower_hex: "list_all isLowerHex (EncodeToString bs)"
  by (induction bs)
     (simp_all add: EncodeToString_def hextable_lower_hex high_nibble_bound low_nibble_bound)

lemma MatchValidID_generateID: "MatchValidID (generateID p)"
  by (simp add: generateID_def SongIDLength_def MatchValidID_def length_EncodeToString
        length_Sum256 EncodeToString_lower_hex)

text \<open>
  The model of SHA-256 on the test vector \<open>abc\<close> of FIPS 180-4, and the ids of two paths
  as \<open>sha256sum\<close> gives them.
\<close>

lemma Sum256_abc:
  "EncodeToString (Sum256 (bytes_of ''abc''))
     = ''ba7816bf8f01cfea414140de5dae2223b00361a396177a9cb410ff61f20015ad''"
  by code_simp

lemma generateID_a_mp3: "generateID ''/music/a.mp3'' = ''355d896ab5c9f0bb353eeb175987afd6''"
  by code_simp

lemma generateID_c_mp3: "generateID ''/music/c.mp3'' = ''dd79e056ccd2130822ead6ca4cb31410''"
  by code_simp

text \<open>
  C8. For every path \<open>p\<close>, \<open>generateID p\<close> is the hexadecimal encoding of the first 16
  bytes of the SHA-256 digest of \<open>p\<close>, and it is a string of 32 characters of
  \<open>0-9a-f\<close>, that is, it matches \<open>ValidIDPattern\<close>. \<open>generateID\<close> reads nothing but its
  argument, so equal paths give equal ids.
\<close>

theorem generateID_format:
  "generateID p = EncodeToString (take 16 (Sum256 (bytes_of p))) \<and> MatchValidID (generateID p)"
  by (simp add: generateID_def SongIDLength_def MatchValidID_def length_EncodeToString
        length_Sum256 EncodeToString_lower_hex)

section \<open>Properties of the library index\<close>

lemma ID_songOf: "ID (songOf v) = generateID (v_path v)"
  by (simp add: songOf_def NewSong_def Let_def)

lemma FilePath_songOf: "FilePath (songOf v) = v_path v"
  by (simp add: songOf_def NewSong_def Let_def)

text \<open>One step of the walk, by cases.\<close>

lemma walkFn_stop:
  "v_ctxDone v \<or> v_err v \<noteq> None \<Longrightarrow> \<exists>e. walkFn v (h, s) = (Some e, h, s)"
  by (auto simp: walkFn_def split: option.splits)

lemma walkFn_skip:
  "\<not> v_ctxDone v \<Longrightarrow> v_err v = None
     \<Longrightarrow> v_isDir v \<or> \<not> matchFormat (ToLower (Ext (v_path v))) (supportedFormats s)
     \<Longrightarrow> walkFn v (h, s) = (None, h, s)"
  by (auto simp: walkFn_def)

lemma walkFn_add:
  "\<not> v_ctxDone v \<Longrightarrow> v_err v = None \<Longrightarrow> \<not> v_isDir v
     \<Longrightarrow> matchFormat (ToLower (Ext (v_path v))) (supportedFormats s)
     \<Longrightarrow> walkFn v (h, s) =
           (None, h @ [songOf v],
            s\<lparr>songs := songs s @ [Some (length h)],
              songIndex := (songIndex s)(generateID (v_path v) \<mapsto> Some (length h))\<rparr>)"
  by (simp add: walkFn_def Let_def songOf_def [symmetric] ID_songOf)


lemma walkFn_stop_eq:
  "v_ctxDone v \<or> v_err v \<noteq> None \<Longrightarrow> walkFn v (h, s) = (walkFailure (v # vs), h, s)"
  by (auto simp: walkFn_def split: option.splits)

lemma walkFailure_stop:
  "v_ctxDone v \<or> v_err v \<noteq> None \<Longrightarrow> walkFailure (v # vs) \<noteq> None"
  by (auto split: option.splits)

lemma walkFailure_go:
  "\<not> v_ctxDone v \<Longrightarrow> v_err v = None \<Longrightarrow> walkFailure (v # vs) = walkFailure vs"
  by simp

lemma Walk_stop:
  "v_ctxDone v \<or> v_err v \<noteq> None \<Longrightarrow> Walk (v # vs) (h, s) = (walkFailure (v # vs), h, s)"
proof -
  assume stop: "v_ctxDone v \<or> v_err v \<noteq> None"
  obtain e where e: "walkFailure (v # vs) = Some e"
    using walkFailure_stop [OF stop] by blast
  have "walkFn v (h, s) = (Some e, h, s)"
    using walkFn_stop_eq [OF stop, of h s vs] e by simp
  then show ?thesis
    using e by simp
qed

lemma Walk_shape:
  "\<exists>s'. Walk vs (h, s) = (walkFailure vs, h @ map songOf (indexed (supportedFormats s) vs), s')
        \<and> songs s' = songs s @ map Some [length h ..< length h + length (indexed (supportedFormats s) vs)]
        \<and> directory s' = directory s \<and> supportedFormats s' = supportedFormats s
        \<and> lastScan s' = lastScan s \<and> cacheTTL s' = cacheTTL s"
proof (induction vs arbitrary: h s)
  case Nil
  then show ?case by simp
next
  case (Cons v vs)
  consider (stop) "v_ctxDone v \<or> v_err v \<noteq> None"
    | (skip) "\<not> v_ctxDone v" "v_err v = None"
             "v_isDir v \<or> \<not> matchFormat (ToLower (Ext (v_path v))) (supportedFormats s)"
    | (add) "\<not> v_ctxDone v" "v_err v = None" "\<not> v_isDir v"
            "matchFormat (ToLower (Ext (v_path v))) (supportedFormats s)"
    by blast
  then show ?case
  proof cases
    case stop
    then have "indexed (supportedFormats s) (v # vs) = []"
      by auto
    with Walk_stop [OF stop, of vs h s] show ?thesis
      by simp
  next
    case skip
    have w: "Walk (v # vs) (h, s) = Walk vs (h, s)"
      using walkFn_skip [OF skip] by simp
    have i: "indexed (supportedFormats s) (v # vs) = indexed (supportedFormats s) vs"
      using skip by auto
    show ?thesis
      using Cons.IH [of h s] w i walkFailure_go [OF skip(1,2)] by simp
  next
    case add
    let ?s1 = "s\<lparr>songs := songs s @ [Some (length h)],
                 songIndex := (songIndex s)(generateID (v_path v) \<mapsto> Some (length h))\<rparr>"
    have w: "Walk (v # vs) (h, s) = Walk vs (h @ [songOf v], ?s1)"
      using walkFn_add [OF add] by simp
    have i: "indexed (supportedFormats s) (v # vs) = v # indexed (supportedFormats s) vs"
      using add by simp
    obtain s' where s': "Walk vs (h @ [songOf v], ?s1)
          = (walkFailure vs, (h @ [songOf v]) @ map songOf (indexed (supportedFormats ?s1) vs), s')"
        "songs s' = songs ?s1 @ map Some [length (h @ [songOf v]) ..<
                       length (h @ [songOf v]) + length (indexed (supportedFormats ?s1) vs)]"
        "directory s' = directory ?s1" "supportedFormats s' = supportedFormats ?s1"
        "lastScan s' = lastScan ?s1" "cacheTTL s' = cacheTTL ?s1"
      using Cons.IH [of "h @ [songOf v]" ?s1] by blast
    have u: "[length h ..< length h + Suc n] = length h # [Suc (length h) ..< Suc (length h) + n]" for n
      by (simp add: upt_conv_Cons)
    show ?thesis
      using s' w i walkFailure_go [OF add(1,2)] u by simp
  qed
qed

lemma consistentI:
  "(\<And>p. p \<in> set (songs s) \<Longrightarrow> \<exists>a. p = Some a \<and> a < length h \<and> songIndex s (ID (h ! a)) = Some p)
   \<Longrightarrow> (\<And>ident. ident \<in> dom (songIndex s)
          \<Longrightarrow> length (filter (\<lambda>p. entryID h p = ident) (songs s)) = 1)
   \<Longrightarrow> consistent (h, s)"
  by (simp add: consistent_def)

lemma consistent_ptr:
  "consistent (h, s) \<Longrightarrow> p \<in> set (songs s)
     \<Longrightarrow> \<exists>a. p = Some a \<and> a < length h \<and> songIndex s (ID (h ! a)) = Some p"
  by (simp add: consistent_def)

lemma consistent_once:
  "consistent (h, s) \<Longrightarrow> ident \<in> dom (songIndex s)
     \<Longrightarrow> length (filter (\<lambda>p. entryID h p = ident) (songs s)) = 1"
  by (simp add: consistent_def)

lemma entryID_append:
  "consistent (h, s) \<Longrightarrow> p \<in> set (songs s) \<Longrightarrow> entryID (h @ ext) p = entryID h p"
  using consistent_ptr [of h s p] by (auto simp: entryID_def nth_append)

lemma filter_entryID_append:
  "consistent (h, s)
     \<Longrightarrow> filter (\<lambda>p. entryID (h @ ext) p = ident) (songs s)
         = filter (\<lambda>p. entryID h p = ident) (songs s)"
  by (rule filter_cong) (simp_all add: entryID_append)

lemma consistent_heap_append:
  assumes c: "consistent (h, s)"
  shows "consistent (h @ ext, s)"
proof (rule consistentI)
  fix p assume "p \<in> set (songs s)"
  then obtain a where "p = Some a" "a < length h" "songIndex s (ID (h ! a)) = Some p"
    using consistent_ptr [OF c] by blast
  then show "\<exists>a. p = Some a \<and> a < length (h @ ext) \<and> songIndex s (ID ((h @ ext) ! a)) = Some p"
    by (simp add: nth_append)
next
  fix ident assume "ident \<in> dom (songIndex s)"
  then show "length (filter (\<lambda>p. entryID (h @ ext) p = ident) (songs s)) = 1"
    using consistent_once [OF c] filter_entryID_append [OF c] by simp
qed

lemma consistent_add:
  assumes c: "consistent (h, s)"
    and fresh: "ID song \<notin> entryID h ` set (songs s)"
  shows "consistent (h @ [song],
           s\<lparr>songs := songs s @ [Some (length h)],
             songIndex := (songIndex s)(ID song \<mapsto> Some (length h))\<rparr>)"
proof (rule consistentI)
  fix p
  assume "p \<in> set (songs (s\<lparr>songs := songs s @ [Some (length h)],
             songIndex := (songIndex s)(ID song \<mapsto> Some (length h))\<rparr>))"
  then consider (old) "p \<in> set (songs s)" | (new) "p = Some (length h)"
    by auto
  then show "\<exists>a. p = Some a \<and> a < length (h @ [song])
      \<and> songIndex (s\<lparr>songs := songs s @ [Some (length h)],
             songIndex := (songIndex s)(ID song \<mapsto> Some (length h))\<rparr>) (ID ((h @ [song]) ! a)) = Some p"
  proof cases
    case old
    then obtain a where a: "p = Some a" "a < length h" "songIndex s (ID (h ! a)) = Some p"
      using consistent_ptr [OF c] by blast
    have "entryID h p \<noteq> ID song"
      using fresh old by (metis image_eqI)
    then have "ID (h ! a) \<noteq> ID song"
      using a by (simp add: entryID_def)
    then show ?thesis
      using a by (simp add: nth_append)
  next
    case new
    then show ?thesis by simp
  qed
next
  fix ident
  assume d: "ident \<in> dom (songIndex (s\<lparr>songs := songs s @ [Some (length h)],
             songIndex := (songIndex s)(ID song \<mapsto> Some (length h))\<rparr>))"
  have none: "filter (\<lambda>p. entryID h p = ID song) (songs s) = []"
    unfolding filter_empty_conv using fresh by (metis image_eqI)
  have newid: "entryID (h @ [song]) (Some (length h)) = ID song"
    by (simp add: entryID_def)
  show "length (filter (\<lambda>p. entryID (h @ [song]) p = ident)
          (songs (s\<lparr>songs := songs s @ [Some (length h)],
             songIndex := (songIndex s)(ID song \<mapsto> Some (length h))\<rparr>))) = 1"
  proof (cases "ident = ID song")
    case True
    then show ?thesis
      using none newid filter_entryID_append [OF c, of "[song]" ident] by simp
  next
    case False
    then have "ident \<in> dom (songIndex s)"
      using d by auto
    then have "length (filter (\<lambda>p. entryID h p = ident) (songs s)) = 1"
      using consistent_once [OF c] by simp
    then show ?thesis
      using False newid filter_entryID_append [OF c, of "[song]" ident] by simp
  qed
qed

lemma Walk_consistent:
  "consistent (h, s)
   \<Longrightarrow> distinct (map (entryID h) (songs s)
                 @ map (\<lambda>v. generateID (v_path v)) (indexed (supportedFormats s) vs))
   \<Longrightarrow> consistent (snd (Walk vs (h, s)))"
proof (induction vs arbitrary: h s)
  case Nil
  then show ?case by simp
next
  case (Cons v vs)
  consider (stop) "v_ctxDone v \<or> v_err v \<noteq> None"
    | (skip) "\<not> v_ctxDone v" "v_err v = None"
             "v_isDir v \<or> \<not> matchFormat (ToLower (Ext (v_path v))) (supportedFormats s)"
    | (add) "\<not> v_ctxDone v" "v_err v = None" "\<not> v_isDir v"
            "matchFormat (ToLower (Ext (v_path v))) (supportedFormats s)"
    by blast
  then show ?case
  proof cases
    case stop
    show ?thesis
      using Walk_stop [OF stop, of vs h s] Cons.prems(1) by simp
  next
    case skip
    have w: "Walk (v # vs) (h, s) = Walk vs (h, s)"
      using walkFn_skip [OF skip] by simp
    have i: "indexed (supportedFormats s) (v # vs) = indexed (supportedFormats s) vs"
      using skip by auto
    show ?thesis
      using Cons.IH [of h s] Cons.prems w i by simp
  next
    case add
    let ?g = "\<lambda>v. generateID (v_path v)"
    let ?s1 = "s\<lparr>songs := songs s @ [Some (length h)],
                 songIndex := (songIndex s)(ID (songOf v) \<mapsto> Some (length h))\<rparr>"
    have w: "Walk (v # vs) (h, s) = Walk vs (h @ [songOf v], ?s1)"
      using walkFn_add [OF add] by (simp add: ID_songOf)
    have i: "indexed (supportedFormats s) (v # vs) = v # indexed (supportedFormats s) vs"
      using add by simp
    have d: "distinct (map (entryID h) (songs s) @ ?g v # map ?g (indexed (supportedFormats s) vs))"
      using Cons.prems(2) i by simp
    then have fresh: "ID (songOf v) \<notin> entryID h ` set (songs s)"
      by (auto simp: ID_songOf)
    have c1: "consistent (h @ [songOf v], ?s1)"
      by (rule consistent_add [OF Cons.prems(1) fresh])
    have m: "map (entryID (h @ [songOf v])) (songs s) = map (entryID h) (songs s)"
      by (rule map_cong) (simp_all add: entryID_append [OF Cons.prems(1)])
    have n: "entryID (h @ [songOf v]) (Some (length h)) = ?g v"
      by (simp add: entryID_def ID_songOf)
    have e: "map (entryID (h @ [songOf v])) (songs ?s1) = map (entryID h) (songs s) @ [?g v]"
      by (simp add: m n)
    have d1: "distinct (map (entryID (h @ [songOf v])) (songs ?s1)
                 @ map ?g (indexed (supportedFormats ?s1) vs))"
      unfolding e using d by simp
    show ?thesis
      using Cons.IH [OF c1 d1] w by simp
  qed
qed

lemma consistent_lastScan [simp]: "consistent (h, s\<lparr>lastScan := t\<rparr>) = consistent (h, s)"
  by (simp add: consistent_def)

lemma consistent_reset: "consistent (h, s\<lparr>songs := [], songIndex := Map.empty\<rparr>)"
  by (simp add: consistent_def)

lemma consistent_new: "consistent (h, NewMusicScanner dir formats ttl)"
  by (simp add: consistent_def NewMusicScanner_def)

lemma scanInternal_consistent:
  assumes "ids_distinct (supportedFormats s) env"
  shows "consistent (snd (scanInternal env (h, s)))"
proof -
  let ?s0 = "s\<lparr>songs := [], songIndex := Map.empty\<rparr>"
  have "consistent (snd (Walk (visits env) (h, ?s0)))"
    using assms by (intro Walk_consistent consistent_reset) (simp add: ids_distinct_def)
  then show ?thesis
    by (auto simp: scanInternal_def Let_def consistent_reset split: prod.splits option.splits)
qed

lemma scanInternal_formats:
  "supportedFormats (snd (snd (scanInternal env (h, s)))) = supportedFormats s"
proof -
  obtain s' where "Walk (visits env) (h, s\<lparr>songs := [], songIndex := Map.empty\<rparr>)
      = (walkFailure (visits env),
         h @ map songOf (indexed (supportedFormats s) (visits env)), s')"
      "supportedFormats s' = supportedFormats s"
    using Walk_shape [of "visits env" h "s\<lparr>songs := [], songIndex := Map.empty\<rparr>"] by auto
  then show ?thesis
    by (auto simp: scanInternal_def Let_def split: option.splits)
qed

lemma copySongs_heap: "\<exists>ext. snd (copySongs ps h) = h @ ext"
proof (induction ps h rule: copySongs.induct)
  case (1 h)
  then show ?case by simp
next
  case (2 ps h)
  then show ?case by (auto split: prod.splits)
next
  case (3 a ps h)
  then obtain ext where "snd (copySongs ps (h @ [h ! a])) = (h @ [h ! a]) @ ext"
    by blast
  then show ?case by (auto split: prod.splits)
qed

lemma run_op_consistent:
  assumes c: "consistent w" and d: "ids_distinct (supportedFormats (snd w)) (fst step)"
  shows "consistent (run_op step w)"
proof -
  obtain h s where w: "w = (h, s)" by (cases w)
  obtain env op where step: "step = (env, op)" by (cases step)
  have si: "consistent (snd (scanInternal env (h, s)))"
    using d w step by (simp add: scanInternal_consistent)
  show ?thesis
  proof (cases op)
    case OpScan
    then show ?thesis using c si w step by (simp add: Scan_def)
  next
    case OpRefresh
    then show ?thesis using si w step by (auto simp: Refresh_def split: prod.splits sum.splits)
  next
    case (OpLookup ident)
    then show ?thesis
      using c w step consistent_heap_append [of h s]
      by (simp add: GetSongByID_def split: option.splits)
  next
    case OpList
    obtain ext where "snd (copySongs (songs s) h) = h @ ext"
      using copySongs_heap by blast
    then show ?thesis
      using OpList c w step consistent_heap_append [of h s ext]
      by (auto simp: GetSongs_def split: prod.splits)
  next
    case OpCount
    then show ?thesis using c step by simp
  qed
qed

lemma run_op_formats: "supportedFormats (snd (run_op step w)) = supportedFormats (snd w)"
proof -
  obtain h s where w: "w = (h, s)" by (cases w)
  obtain env op where step: "step = (env, op)" by (cases step)
  show ?thesis
    using scanInternal_formats [of env h s]
    by (cases op)
       (auto simp: w step Scan_def Refresh_def GetSongByID_def GetSongs_def
             split: prod.splits sum.splits option.splits)
qed

lemma run_ops_consistent:
  "consistent w \<Longrightarrow> \<forall>step \<in> set steps. ids_distinct (supportedFormats (snd w)) (fst step)
     \<Longrightarrow> consistent (run_ops steps w)"
proof (induction steps arbitrary: w)
  case Nil
  then show ?case by (simp add: run_ops_def)
next
  case (Cons step steps)
  have "consistent (run_op step w)"
    using Cons.prems by (simp add: run_op_consistent)
  moreover have "\<forall>st \<in> set steps. ids_distinct (supportedFormats (snd (run_op step w))) (fst st)"
    using Cons.prems(2) by (simp add: run_op_formats)
  ultimately have "consistent (run_ops steps (run_op step w))"
    by (rule Cons.IH)
  then show ?case by (simp add: run_ops_def)
qed

lemma deref_fresh: "deref (h @ xs) (map Some [length h ..< length h + length xs]) = xs"
  by (rule nth_equalityI) (simp_all add: deref_def)

lemma scanInternal_shape:
  "\<exists>s'. scanInternal env (h, s) =
          ((if \<not> root_exists env then Inl (DirNotExist (directory s))
            else (case walkFailure (visits env) of
                    Some e \<Rightarrow> Inl (ScanFailed e)
                  | None \<Rightarrow> Inr (songs s'))),
           h @ map songOf (walked env s), s')
        \<and> songs s' = map Some [length h ..< length h + length (walked env s)]
        \<and> directory s' = directory s \<and> supportedFormats s' = supportedFormats s
        \<and> cacheTTL s' = cacheTTL s
        \<and> lastScan s' = (if root_exists env \<and> walkFailure (visits env) = None
                          then clk_done env else lastScan s)"
proof (cases "root_exists env")
  case False
  then show ?thesis
    by (simp add: scanInternal_def walked_def)
next
  case True
  let ?s0 = "s\<lparr>songs := [], songIndex := Map.empty\<rparr>"
  obtain s1 where s1:
      "Walk (visits env) (h, ?s0)
         = (walkFailure (visits env), h @ map songOf (indexed (supportedFormats ?s0) (visits env)), s1)"
      "songs s1 = songs ?s0 @ map Some [length h ..<
                     length h + length (indexed (supportedFormats ?s0) (visits env))]"
      "directory s1 = directory ?s0" "supportedFormats s1 = supportedFormats ?s0"
      "lastScan s1 = lastScan ?s0" "cacheTTL s1 = cacheTTL ?s0"
    using Walk_shape [of "visits env" h ?s0] by blast
  show ?thesis
  proof (cases "walkFailure (visits env)")
    case None
    then show ?thesis
      using True s1 by (simp add: scanInternal_def walked_def)
  next
    case (Some e)
    then show ?thesis
      using True s1 by (simp add: scanInternal_def walked_def)
  qed
qed

lemma scanInternal_failed:
  assumes "isl (fst (scanInternal env w))"
  shows "failed_scan_post env w (snd (scanInternal env w))"
proof -
  obtain h s where w: "w = (h, s)" by (cases w)
  obtain s' where s': "scanInternal env (h, s) =
          ((if \<not> root_exists env then Inl (DirNotExist (directory s))
            else (case walkFailure (visits env) of
                    Some e \<Rightarrow> Inl (ScanFailed e)
                  | None \<Rightarrow> Inr (songs s'))),
           h @ map songOf (walked env s), s')"
      "songs s' = map Some [length h ..< length h + length (walked env s)]"
      "directory s' = directory s" "supportedFormats s' = supportedFormats s"
      "cacheTTL s' = cacheTTL s"
      "lastScan s' = (if root_exists env \<and> walkFailure (visits env) = None
                          then clk_done env else lastScan s)"
    using scanInternal_shape [of env h s] by blast
  have "\<not> (root_exists env \<and> walkFailure (visits env) = None)"
    using assms w s'(1) by (auto split: option.splits)
  then have "lastScan s' = lastScan s"
    using s'(6) by auto
  moreover have "deref (h @ map songOf (walked env s)) (songs s') = map songOf (walked env s)"
    using deref_fresh [of h "map songOf (walked env s)"] s'(2) by simp
  ultimately show ?thesis
    using w s' by (simp add: failed_scan_post_def)
qed

lemma ID_NewSong: "ID (NewSong pr p n) = generateID p"
  by (simp add: NewSong_def Let_def)

lemmas ex_defs = ex_probe_def ex_file_def ex_dir_def ex_env_def ex_tree_def ex_new_def
  ex_missing_def ex_cancelled_def

lemmas run_defs = NewMusicScanner_def Scan_def cacheValid_def scanInternal_def walkFn_def Let_def
  ToLower_def toLowerChar_def Ext_def ID_NewSong Since_def wrap64_def Minute_def Refresh_def
  GetSongCount_def

lemma ex_scanned_eq:
  "ex_scanned =
     ([NewSong ex_probe ''/music/a.mp3'' 11, NewSong ex_probe ''/music/c.mp3'' 7],
      \<lparr>directory = ''/music'', supportedFormats = [''.mp3''], songs = [Some 0, Some 1],
       songIndex = [generateID ''/music/a.mp3'' \<mapsto> Some 0, generateID ''/music/c.mp3'' \<mapsto> Some 1],
       lastScan = 1000, cacheTTL = 300000000000\<rparr>)"
  by (simp add: ex_scanned_def ex_defs run_defs)

lemma ex_empty_scanned_eq:
  "ex_empty_scanned =
     ([], \<lparr>directory = ''/music'', supportedFormats = [''.mp3''], songs = [],
           songIndex = Map.empty, lastScan = 1000, cacheTTL = 300000000000\<rparr>)"
  by (simp add: ex_empty_scanned_def ex_defs run_defs)

lemmas song_defs = NewSong_def Base_def TrimSuffix_def HasSuffix_def deref_def callerSetTitle_def
  GetSongByID_def GetSongs_def

text \<open>
  \<open>GetSongs\<close> copies the songs: the pointers it returns are new, so a caller that writes
  through one of them leaves every song of the index as it was.
\<close>

lemma copySongs_fresh:
  "copySongs ps h = (r, h') \<Longrightarrow> take (length h) h' = h \<and> (\<forall>a. Some a \<in> set r \<longrightarrow> length h \<le> a \<and> a < length h')"
proof (induction ps h arbitrary: r h' rule: copySongs.induct)
  case (1 h)
  then show ?case by simp
next
  case (2 ps h)
  then show ?case by (auto split: prod.splits)
next
  case (3 a ps h)
  obtain r1 h1 where c: "copySongs ps (h @ [h ! a]) = (r1, h1)"
    by (cases "copySongs ps (h @ [h ! a])")
  then have r: "r = Some (length h) # r1" "h' = h1"
    using 3(2) by simp_all
  have ih: "take (length (h @ [h ! a])) h1 = h @ [h ! a]"
      "\<forall>b. Some b \<in> set r1 \<longrightarrow> length (h @ [h ! a]) \<le> b \<and> b < length h1"
    using 3(1) [OF c] by simp_all
  have i1: "take (Suc (length h)) h1 = h @ [h ! a]"
    using ih(1) by simp
  have "take (length h) (take (Suc (length h)) h1) = take (length h) h1"
    by (simp add: min_def)
  then have t: "take (length h) h1 = h"
    using i1 by simp
  have "length (take (Suc (length h)) h1) = Suc (length h)"
    using i1 by simp
  then have "length h < length h1"
    by (simp add: min_def split: if_splits)
  then show ?case
    using r t ih(2) by auto
qed

lemma GetSongs_private:
  assumes c: "consistent (h, s)" and g: "GetSongs (h, s) = (r, h', s')" and p: "p \<in> set r"
  shows "s' = s \<and> deref (callerSetTitle p t h') (songs s) = deref h (songs s)"
proof -
  have cs: "copySongs (songs s) h = (r, h')" and s': "s' = s"
    using g by (auto simp: GetSongs_def split: prod.splits)
  have tk: "take (length h) h' = h"
    and fr: "\<forall>a. Some a \<in> set r \<longrightarrow> length h \<le> a \<and> a < length h'"
    using copySongs_fresh [OF cs] by simp_all
  have old: "h' ! b = h ! b" if "b < length h" for b
    using that tk by (metis nth_take)
  have "callerSetTitle p t h' ! b = h ! b" if b: "b < length h" for b
  proof (cases p)
    case None
    then show ?thesis using old [OF b] by (simp add: callerSetTitle_def)
  next
    case (Some a)
    then have "length h \<le> a" using fr p by simp
    then show ?thesis using Some old [OF b] b by (simp add: callerSetTitle_def)
  qed
  then have "deref (callerSetTitle p t h') (songs s) = deref h (songs s)"
    unfolding deref_def using consistent_ptr [OF c] by (intro map_cong) fastforce+
  then show ?thesis using s' by simp
qed

lemma matchFormat_mp3: "matchFormat e [''.mp3''] = (e = ''.mp3'')"
  by (simp add: ToLower_def toLowerChar_def)

lemma indexed_no_failure:
  "walkFailure vs = None
     \<Longrightarrow> indexed fmts vs = filter (\<lambda>v. \<not> v_isDir v \<and> matchFormat (ToLower (Ext (v_path v))) fmts) vs"
  by (induction vs) (auto split: if_splits option.splits)

lemma scanInternal_ok:
  assumes "scanInternal env (h, s) = (Inr r, h', s')"
  shows "root_exists env \<and> walkFailure (visits env) = None \<and> r = songs s'
         \<and> deref h' (songs s') = map songOf (indexed (supportedFormats s) (visits env))
         \<and> lastScan s' = clk_done env"
proof -
  obtain s1 where s1: "scanInternal env (h, s) =
          ((if \<not> root_exists env then Inl (DirNotExist (directory s))
            else (case walkFailure (visits env) of
                    Some e \<Rightarrow> Inl (ScanFailed e)
                  | None \<Rightarrow> Inr (songs s1))),
           h @ map songOf (walked env s), s1)"
      "songs s1 = map Some [length h ..< length h + length (walked env s)]"
      "lastScan s1 = (if root_exists env \<and> walkFailure (visits env) = None
                          then clk_done env else lastScan s)"
    using scanInternal_shape [of env h s] by blast
  have ok: "root_exists env" "walkFailure (visits env) = None"
    using assms s1(1) by (auto split: if_splits option.splits)
  have eq: "r = songs s1" "h' = h @ map songOf (walked env s)" "s' = s1"
    using assms s1(1) ok by auto
  have "deref (h @ map songOf (walked env s)) (songs s1) = map songOf (walked env s)"
    using deref_fresh [of h "map songOf (walked env s)"] s1(2) by simp
  then show ?thesis
    using ok eq s1(3) by (simp add: walked_def)
qed

text \<open>
  C1, as stated, fails. \<open>scanInternal\<close> empties the sequence and the mapping before it
  looks at the directory and appends to them while it walks. After the scan of \<open>/music\<close>
  the index holds two songs; a refresh that finds the root missing fails and leaves none,
  a refresh cancelled at \<open>b.txt\<close> fails and leaves one, and the next \<open>Scan\<close> within the TTL
  returns that one song as a valid cache.
\<close>

theorem failed_refresh_changes_snapshot:
  "GetSongCount ex_scanned = 2
   \<and> fst (Refresh ex_missing ex_scanned) = Some (DirNotExist ''/music'')
   \<and> GetSongCount (snd (Refresh ex_missing ex_scanned)) = 0
   \<and> fst (Refresh ex_cancelled ex_scanned) = Some (ScanFailed CtxErr)
   \<and> GetSongCount (snd (Refresh ex_cancelled ex_scanned)) = 1
   \<and> fst (Scan (ex_env ex_tree 3000) (snd (Refresh ex_cancelled ex_scanned))) = Inr [Some 2]"
  by (simp add: ex_scanned_eq ex_defs run_defs)

text \<open>
  C1, amended. When \<open>Scan\<close> or \<open>Refresh\<close> fails, the time of the last scan and the
  configuration are unchanged and the songs allocated before are untouched; the previous
  snapshot is not kept: the sequence holds the songs of the supported files that the failed
  call visited before it failed, none when the root directory is missing.
\<close>

theorem failed_scan_effect:
  "(isl (fst (Scan env w)) \<longrightarrow> failed_scan_post env w (snd (Scan env w)))
   \<and> (fst (Refresh env w) \<noteq> None \<longrightarrow> failed_scan_post env w (snd (Refresh env w)))"
proof (intro conjI impI)
  assume a: "isl (fst (Scan env w))"
  obtain h s where w: "w = (h, s)" by (cases w)
  have "Scan env w = scanInternal env w"
    using a w by (auto simp: Scan_def split: if_splits)
  then show "failed_scan_post env w (snd (Scan env w))"
    using a scanInternal_failed [of env w] by simp
next
  assume a: "fst (Refresh env w) \<noteq> None"
  have "isl (fst (scanInternal env w))"
    using a by (auto simp: Refresh_def split: prod.splits sum.splits)
  moreover have "snd (Refresh env w) = snd (scanInternal env w)"
    by (auto simp: Refresh_def split: prod.splits sum.splits)
  ultimately show "failed_scan_post env w (snd (Refresh env w))"
    using scanInternal_failed [of env w] by simp
qed

theorem failed_scan_effect_witness:
  "isl (fst (Scan ex_cancelled ex_new))
   \<and> failed_scan_post ex_cancelled ex_new (snd (Scan ex_cancelled ex_new))
   \<and> fst (Refresh ex_cancelled ex_new) \<noteq> None
   \<and> failed_scan_post ex_cancelled ex_new (snd (Refresh ex_cancelled ex_new))"
proof -
  have a: "isl (fst (Scan ex_cancelled ex_new))"
    by (simp add: ex_defs run_defs)
  have b: "fst (Refresh ex_cancelled ex_new) \<noteq> None"
    by (simp add: ex_defs run_defs)
  show ?thesis
    using failed_scan_effect [of ex_cancelled ex_new] a b by simp
qed

text \<open>
  C6, as stated, fails for an empty snapshot: the cache counts as valid only when it holds
  a song. A scan of the empty directory at time 1000 returns no song; a second scan at time
  2000, within the TTL of 5 minutes, walks again, returns the two songs now present and
  moves the time of the last scan.
\<close>

theorem empty_snapshot_rescanned_within_ttl:
  "fst (Scan (ex_env [ex_dir ''/music''] 1000) ex_new) = Inr []
   \<and> lastScan (snd ex_empty_scanned) = 1000
   \<and> Since 2000 (lastScan (snd ex_empty_scanned)) < cacheTTL (snd ex_empty_scanned)
   \<and> fst (Scan (ex_env ex_tree 2000) ex_empty_scanned) = Inr [Some 0, Some 1]
   \<and> lastScan (snd (snd (Scan (ex_env ex_tree 2000) ex_empty_scanned))) = 2000"
  by (simp add: ex_empty_scanned_eq ex_defs run_defs)

text \<open>
  C6, amended. If a \<open>Scan\<close> returned a non-empty list of songs, then a \<open>Scan\<close> whose first
  staleness check reads an age below the TTL returns the same list and leaves the whole
  state as it is, the time of the last scan included, whatever the file system holds by
  then: it does not walk.
\<close>

theorem scan_within_ttl_cached:
  assumes "Scan env1 w0 = (Inr songs1, w1)"
    and "songs1 \<noteq> []"
    and "Since (clk_check1 env2) (lastScan (snd w1)) < cacheTTL (snd w1)"
  shows "Scan env2 w1 = (Inr songs1, w1)"
proof -
  obtain h0 s0 where w0: "w0 = (h0, s0)" by (cases w0)
  obtain h1 s1 where w1: "w1 = (h1, s1)" by (cases w1)
  have "songs s1 = songs1"
  proof (cases "cacheValid (clk_check1 env1) s0 \<or> cacheValid (clk_check2 env1) s0")
    case True
    then show ?thesis
      using assms(1) w0 w1 by (auto simp: Scan_def split: if_splits)
  next
    case False
    then have "scanInternal env1 (h0, s0) = (Inr songs1, h1, s1)"
      using assms(1) w0 w1 by (simp add: Scan_def)
    then show ?thesis
      using scanInternal_shape [of env1 h0 s0] by (auto split: if_splits option.splits)
  qed
  then have "cacheValid (clk_check1 env2) s1"
    using assms(2,3) w1 by (simp add: cacheValid_def)
  then show ?thesis
    using w1 \<open>songs s1 = songs1\<close> by (simp add: Scan_def)
qed

theorem scan_within_ttl_cached_witness:
  "Scan (ex_env ex_tree 1000) ex_new = (Inr [Some 0, Some 1], ex_scanned)
   \<and> [Some 0, Some (1::nat)] \<noteq> []
   \<and> Since (clk_check1 (ex_env [] 2000)) (lastScan (snd ex_scanned)) < cacheTTL (snd ex_scanned)
   \<and> Scan (ex_env [] 2000) ex_scanned = (Inr [Some 0, Some 1], ex_scanned)"
proof -
  have a: "Scan (ex_env ex_tree 1000) ex_new = (Inr [Some 0, Some 1], ex_scanned)"
    by (simp add: ex_scanned_def ex_defs run_defs)
  have b: "[Some 0, Some (1::nat)] \<noteq> []"
    by simp
  have c: "Since (clk_check1 (ex_env [] 2000)) (lastScan (snd ex_scanned)) < cacheTTL (snd ex_scanned)"
    by (simp add: ex_scanned_eq ex_defs Since_def)
  show ?thesis
    using scan_within_ttl_cached [OF a b c] a b c by simp
qed

text \<open>
  C7, at a concrete input. After the scan of \<open>/music\<close>, a \<open>Scan\<close> within the TTL returns
  the pointers the index itself holds. A caller that assigns the title of the first song
  returned changes the song of the index: the sequence shows the new title, and so does
  the copy a later \<open>GetSongByID\<close> returns. The list \<open>GetSongs\<close> returns does not share its
  songs with the index.
\<close>

theorem scan_cache_hit_shares_songs:
  "fst (Scan (ex_env ex_tree 2000) ex_scanned) = Inr [Some 0, Some 1]
   \<and> songs (snd ex_scanned) = [Some 0, Some 1]
   \<and> map Title (deref (fst ex_scanned) (songs (snd ex_scanned))) = [''a'', ''c'']
   \<and> map Title (deref (callerSetTitle (Some 0) ''changed'' (fst ex_scanned)) (songs (snd ex_scanned)))
       = [''changed'', ''c'']
   \<and> map Title (deref
         (fst (snd (GetSongByID (generateID ''/music/a.mp3'')
                      (callerSetTitle (Some 0) ''changed'' (fst ex_scanned), snd ex_scanned))))
         [fst (GetSongByID (generateID ''/music/a.mp3'')
                      (callerSetTitle (Some 0) ''changed'' (fst ex_scanned), snd ex_scanned))])
       = [''changed'']"
  by (simp add: ex_scanned_eq ex_defs run_defs song_defs generateID_a_mp3 generateID_c_mp3)

lemma list_copy_is_private:
  "fst (GetSongs ex_scanned) = [Some 2, Some 3]
   \<and> map Title (deref (callerSetTitle (Some 2) ''changed'' (fst (snd (GetSongs ex_scanned))))
                  (songs (snd ex_scanned))) = [''a'', ''c'']"
  by (simp add: ex_scanned_eq ex_defs run_defs song_defs)

text \<open>
  C9. From a state in which sequence and mapping agree (such as that of a new scanner),
  after any sequence of \<open>Scan\<close>, \<open>Refresh\<close>, \<open>GetSongByID\<close>, \<open>GetSongs\<close> and \<open>GetSongCount\<close>
  calls, each against its own state of the file system, they agree again, provided that
  in every walk the files indexed have pairwise different ids. Every entry of the sequence
  is returned by the mapping for its id, and every id of the mapping belongs to exactly one
  entry of the sequence.
\<close>

theorem index_consistent_after_ops:
  assumes "consistent w"
    and "\<forall>step \<in> set steps. ids_distinct (supportedFormats (snd w)) (fst step)"
  shows "consistent (run_ops steps w)"
  using assms by (rule run_ops_consistent)

theorem index_consistent_after_ops_witness:
  "consistent ex_new
   \<and> ids_distinct (supportedFormats (snd ex_new)) (ex_env ex_tree 1000)
   \<and> ids_distinct (supportedFormats (snd ex_new)) ex_cancelled
   \<and> consistent (run_ops [(ex_env ex_tree 1000, OpScan),
                            (ex_env ex_tree 1000, OpLookup (generateID ''/music/a.mp3'')),
                            (ex_env ex_tree 1000, OpList),
                            (ex_cancelled, OpRefresh),
                            (ex_env ex_tree 1000, OpCount)] ex_new)"
proof -
  have a: "consistent ex_new"
    by (simp add: ex_new_def consistent_def NewMusicScanner_def)
  have b: "ids_distinct (supportedFormats (snd ex_new)) (ex_env ex_tree 1000)"
    by (simp add: ids_distinct_def ex_defs NewMusicScanner_def ToLower_def toLowerChar_def Ext_def
          generateID_a_mp3 generateID_c_mp3)
  have c: "ids_distinct (supportedFormats (snd ex_new)) ex_cancelled"
    by (simp add: ids_distinct_def ex_defs NewMusicScanner_def ToLower_def toLowerChar_def Ext_def)
  have d: "\<forall>step \<in> set [(ex_env ex_tree 1000, OpScan),
                            (ex_env ex_tree 1000, OpLookup (generateID ''/music/a.mp3'')),
                            (ex_env ex_tree 1000, OpList),
                            (ex_cancelled, OpRefresh),
                            (ex_env ex_tree 1000, OpCount)].
             ids_distinct (supportedFormats (snd ex_new)) (fst step)"
    using b c by simp
  show ?thesis
    using index_consistent_after_ops [OF a d] a b c by simp
qed

text \<open>
  C10. A scanner made with an empty format list is the scanner made with the list
  \<open>[".mp3"]\<close>, and whenever \<open>scanInternal\<close> (the walk behind \<open>Refresh\<close> and behind \<open>Scan\<close> on a
  stale cache) succeeds in a state of that scanner, the songs it returns are, in the order
  of the walk, exactly the visited files whose lower-cased extension is \<open>.mp3\<close>.
\<close>

theorem empty_formats_default_mp3:
  "NewMusicScanner dir [] ttl = NewMusicScanner dir [''.mp3''] ttl
   \<and> (supportedFormats s = supportedFormats (NewMusicScanner dir [] ttl)
        \<and> scanInternal env (h, s) = (Inr r, h', s')
      \<longrightarrow> map FilePath (deref h' r)
          = map v_path (filter (\<lambda>v. \<not> v_isDir v \<and> ToLower (Ext (v_path v)) = ''.mp3'') (visits env)))"
proof (intro conjI impI)
  show "NewMusicScanner dir [] ttl = NewMusicScanner dir [''.mp3''] ttl"
    by (simp add: NewMusicScanner_def)
next
  assume a: "supportedFormats s = supportedFormats (NewMusicScanner dir [] ttl)
        \<and> scanInternal env (h, s) = (Inr r, h', s')"
  then have f: "supportedFormats s = [''.mp3'']"
    by (simp add: NewMusicScanner_def)
  have ok: "walkFailure (visits env) = None" "r = songs s'"
      "deref h' (songs s') = map songOf (indexed (supportedFormats s) (visits env))"
    using scanInternal_ok [of env h s r h' s'] a by simp_all
  have "indexed [''.mp3''] (visits env)
      = filter (\<lambda>v. \<not> v_isDir v \<and> ToLower (Ext (v_path v)) = ''.mp3'') (visits env)"
    using indexed_no_failure [OF ok(1), of "[''.mp3'']"] by (simp only: matchFormat_mp3)
  then show "map FilePath (deref h' r)
          = map v_path (filter (\<lambda>v. \<not> v_isDir v \<and> ToLower (Ext (v_path v)) = ''.mp3'') (visits env))"
    using ok f by (simp add: FilePath_songOf comp_def)
qed

theorem empty_formats_default_mp3_witness:
  "supportedFormats (snd ex_new) = supportedFormats (NewMusicScanner ''/music'' [] 5)
   \<and> scanInternal (ex_env ex_mixed 1000) ([], snd ex_new)
       = (Inr [Some 0], fst (snd (scanInternal (ex_env ex_mixed 1000) ([], snd ex_new))),
          snd (snd (scanInternal (ex_env ex_mixed 1000) ([], snd ex_new))))
   \<and> map FilePath (deref (fst (snd (scanInternal (ex_env ex_mixed 1000) ([], snd ex_new)))) [Some 0])
       = [''/music/A.MP3'']"
proof -
  have a: "supportedFormats (snd ex_new) = supportedFormats (NewMusicScanner ''/music'' [] 5)
   \<and> scanInternal (ex_env ex_mixed 1000) ([], snd ex_new)
       = (Inr [Some 0], fst (snd (scanInternal (ex_env ex_mixed 1000) ([], snd ex_new))),
          snd (snd (scanInternal (ex_env ex_mixed 1000) ([], snd ex_new))))"
    by (simp add: ex_mixed_def ex_defs run_defs)
  have b: "map v_path (filter (\<lambda>v. \<not> v_isDir v \<and> ToLower (Ext (v_path v)) = ''.mp3'')
                     (visits (ex_env ex_mixed 1000))) = [''/music/A.MP3'']"
    by (simp add: ex_mixed_def ex_defs ToLower_def toLowerChar_def Ext_def)
  show ?thesis
    using empty_formats_default_mp3 [of "''/music''" 5 "snd ex_new" "ex_env ex_mixed 1000" "[]"
            "[Some 0]" "fst (snd (scanInternal (ex_env ex_mixed 1000) ([], snd ex_new)))"
            "snd (snd (scanInternal (ex_env ex_mixed 1000) ([], snd ex_new)))"] a b
    by simp
qed

section \<open>Properties of streaming\<close>

lemmas http_defs = JSON_def Header_def Status_def newContext_def getHeader_def

lemma FilePath_NewSong: "FilePath (NewSong pr p n) = p"
  by (simp add: NewSong_def Let_def)

lemma Split_none: "sep \<notin> set s \<Longrightarrow> Split s sep = [s]"
  by (induction s) auto

lemma Split_one: "sep \<notin> set a \<Longrightarrow> sep \<notin> set b \<Longrightarrow> Split (a @ sep # b) sep = [a, b]"
  by (induction a) (auto simp: Split_none)

lemma Split_nonempty: "Split s sep \<noteq> []"
  by (induction s) (auto split: list.splits)

lemma length_Split: "length (Split s sep) = Suc (length (filter (\<lambda>c. c = sep) s))"
  by (induction s) (auto split: list.splits simp: Split_nonempty)

lemma TrimPrefix_bytes: "TrimPrefix (''bytes='' @ s) ''bytes='' = s"
  by (simp add: TrimPrefix_def HasPrefix_def)

lemma ParseInt_nonneg: "CHR ''-'' \<notin> set a \<Longrightarrow> ParseInt a = Some n \<Longrightarrow> 0 \<le> n"
  by (cases a) (auto simp: ParseInt_def Let_def split: if_splits)

lemma map_of_setHeader_same: "map_of (setHeader k v hs) k = Some v"
  by (induction hs) auto

lemma map_of_setHeader_other: "k' \<noteq> k \<Longrightarrow> map_of (setHeader k v hs) k' = map_of hs k'"
  by (induction hs) auto

lemma getHeader_Header:
  "getHeader k' (Header k v c) = (if k' = k then Some v else getHeader k' c)"
  by (simp add: getHeader_def Header_def map_of_setHeader_same map_of_setHeader_other)

lemma getHeader_Status [simp]: "getHeader k (Status n c) = getHeader k c"
  by (simp add: getHeader_def Status_def)

lemma take_drop_nth: "s + n \<le> length xs \<Longrightarrow> take n (drop s xs) = map (\<lambda>i. xs ! i) [s ..< s + n]"
  by (rule nth_equalityI) simp_all

text \<open>The two fields of a single range, parsed as \<open>serveRange\<close> does.\<close>

lemma serveRange_fields:
  assumes a: "CHR ''-'' \<notin> set a" and b: "CHR ''-'' \<notin> set b"
    and s: "if a = [] then start = 0 else ParseInt a = Some start"
    and e: "if b = [] then end = fileSize - 1 else ParseInt b = Some end"
  shows "serveRange h env file fileSize (''bytes='' @ a @ ''-'' @ b) filename c =
     (if end \<ge> fileSize \<or> start > end then
        Status 416 (Header ''Content-Range'' (''bytes */'' @ itoa fileSize) c)
      else if end - start + 1 > maxRangeSize h then JSON 400 ''BAD_REQUEST'' c
      else
        (let c6 = Status 206
                    (Header ''Accept-Ranges'' ''bytes''
                      (Header ''Content-Disposition''
                         (''inline; filename='' @ [CHR 0x22] @ filename @ [CHR 0x22])
                        (Header ''Content-Type'' (getMimeType env filename)
                          (Header ''Content-Length'' (itoa (end - start + 1))
                            (Header ''Content-Range''
                               (''bytes '' @ itoa start @ ''-'' @ itoa end @ ''/'' @ itoa fileSize) c)))))
         in if f_seekFails file then JSON 500 ''INTERNAL_ERROR'' c6
            else c6\<lparr>body := Bytes (take (nat (end - start + 1)) (drop (nat start) (f_bytes file)))\<rparr>))"
proof -
  have sp: "Split (TrimPrefix (''bytes='' @ a @ ''-'' @ b) ''bytes='') (CHR ''-'') = [a, b]"
    using Split_one [OF a b] by (simp only: TrimPrefix_bytes) simp
  have s0: "0 \<le> start"
    using s ParseInt_nonneg [OF a] by (auto split: if_splits)
  have e0: "b \<noteq> [] \<Longrightarrow> 0 \<le> end"
    using e ParseInt_nonneg [OF b] by (auto split: if_splits)
  have ps: "(if [a, b] ! 0 \<noteq> [] then ParseInt ([a, b] ! 0) else Some 0) = Some start"
    using s by (auto split: if_splits)
  have pe: "(if [a, b] ! 1 \<noteq> [] then ParseInt ([a, b] ! 1) else Some (fileSize - 1)) = Some end"
    using e by (auto split: if_splits)
  show ?thesis
    unfolding serveRange_def sp Let_def ps pe
    using s0 e0 by (auto simp: Let_def)
qed

lemma getHeader_body: "getHeader k (c\<lparr>body := b\<rparr>) = getHeader k c"
  by (simp add: getHeader_def)

text \<open>
  C2, at a concrete input. The handler compares strings: \<open>strings.HasPrefix cleanPath
  musicDirAbs\<close>. The path \<open>/music-private/secret.mp3\<close> lies outside the root \<open>/music\<close> and
  has the root's name as a prefix, so an entry with this path passes the check: the file is
  opened and streamed with status 200.
\<close>

theorem sibling_directory_is_streamed:
  "musicDirAbs ex_handler = ''/music''
   \<and> FilePath ex_song_outside = ''/music-private/secret.mp3''
   \<and> status (fst (StreamAudio ex_handler ex_os (Inr [ex_song_outside, ex_song_a]) (ID ex_song_outside) [])) = 200
   \<and> body (fst (StreamAudio ex_handler ex_os (Inr [ex_song_outside, ex_song_a]) (ID ex_song_outside) []))
       = Bytes (bytes_of ''secret'')
   \<and> snd (StreamAudio ex_handler ex_os (Inr [ex_song_outside, ex_song_a]) (ID ex_song_outside) [])
       = [EvScan, EvAbs ''/music-private/secret.mp3'', EvStat ''/music-private/secret.mp3'',
          EvOpen ''/music-private/secret.mp3'']"
  by (simp add: StreamAudio_def ex_handler_def NewStreamHandler_def ex_os_def ex_song_a_def
        ex_song_outside_def ID_NewSong FilePath_NewSong MatchValidID_generateID HasPrefix_def
        http_defs Let_def)

text \<open>
  What the check does reject: a resolved path of which the root is not a string prefix, and
  a resolved path that \<open>os.Stat\<close> reports as a directory. Both get 403, and the file is not
  opened.
\<close>

lemma StreamAudio_forbidden:
  assumes "MatchValidID ident" and "findSong ident songlist = Some songPath"
    and "e_abs env songPath = Some cleanPath"
    and "\<not> HasPrefix cleanPath (musicDirAbs h)
         \<or> (\<exists>fi. e_stat env cleanPath = OK fi \<and> fi_isDir fi)"
  shows "status (fst (StreamAudio h env (Inr songlist) ident rangeHeader)) = 403
         \<and> EvOpen cleanPath \<notin> set (snd (StreamAudio h env (Inr songlist) ident rangeHeader))
         \<and> body (fst (StreamAudio h env (Inr songlist) ident rangeHeader)) = JSONBody ''FORBIDDEN''"
  using assms by (auto simp: StreamAudio_def http_defs Let_def)

text \<open>
  C3, as stated, fails for the older handler of \<open>handlers/stream.go\<close>, which the claim
  names too: its first check lets the id \<open>nonexistent\<close> (not 32 hexadecimal characters)
  pass, the scan result is searched, and the answer is 404.
\<close>

theorem legacy_handler_looks_up_short_id:
  "\<not> MatchValidID ''nonexistent''
   \<and> status (fst (StreamAudio_legacy ''/music'' ex_os (Inr [ex_song_a]) ''nonexistent'' [])) = 404
   \<and> snd (StreamAudio_legacy ''/music'' ex_os (Inr [ex_song_a]) ''nonexistent'' []) = [EvScan]"
proof -
  have "ID ex_song_a \<noteq> ''nonexistent''"
    using MatchValidID_generateID [of "''/music/a.mp3''"]
    by (auto simp: ex_song_a_def ID_NewSong MatchValidID_def)
  then show ?thesis
    by (simp add: StreamAudio_legacy_def legacyIDRejected_def HasPrefix_def MatchValidID_def http_defs)
qed

text \<open>
  C3, amended. The handler that validates with \<open>ValidIDPattern\<close> answers every id that
  does not match \<open>^[a-f0-9]{32}$\<close> with 400 and \<open>BAD_REQUEST\<close> before any access (no scan,
  no path resolution, no file access). The older handler does so for the ids that are empty
  or contain \<open>..\<close>, a slash or a backslash.
\<close>

theorem invalid_id_bad_request:
  "(\<not> MatchValidID ident \<longrightarrow>
      status (fst (StreamAudio h env scan ident rangeHeader)) = 400
      \<and> body (fst (StreamAudio h env scan ident rangeHeader)) = JSONBody ''BAD_REQUEST''
      \<and> snd (StreamAudio h env scan ident rangeHeader) = [])
   \<and> (legacyIDRejected ident \<longrightarrow>
      status (fst (StreamAudio_legacy rootAbs env scan ident rangeHeader)) = 400
      \<and> body (fst (StreamAudio_legacy rootAbs env scan ident rangeHeader)) = JSONBody ''BAD_REQUEST''
      \<and> snd (StreamAudio_legacy rootAbs env scan ident rangeHeader) = [])"
  by (simp add: StreamAudio_def StreamAudio_legacy_def http_defs)

theorem invalid_id_bad_request_witness:
  "\<not> MatchValidID ''../etc/passwd''
   \<and> status (fst (StreamAudio ex_handler ex_os (Inr [ex_song_a]) ''../etc/passwd'' [])) = 400
   \<and> snd (StreamAudio ex_handler ex_os (Inr [ex_song_a]) ''../etc/passwd'' []) = []
   \<and> legacyIDRejected ''../etc/passwd''
   \<and> status (fst (StreamAudio_legacy ''/music'' ex_os (Inr [ex_song_a]) ''../etc/passwd'' [])) = 400
   \<and> snd (StreamAudio_legacy ''/music'' ex_os (Inr [ex_song_a]) ''../etc/passwd'' []) = []"
proof -
  have a: "\<not> MatchValidID ''../etc/passwd''"
    by (simp add: MatchValidID_def)
  have b: "legacyIDRejected ''../etc/passwd''"
    by (simp add: legacyIDRejected_def HasPrefix_def)
  show ?thesis
    using invalid_id_bad_request [of "''../etc/passwd''" ex_handler ex_os "Inr [ex_song_a]" "[]" "''/music''"]
      a b by simp
qed

text \<open>
  C4. For a range header \<open>bytes=a-b\<close> whose two fields contain no further dash, let
  \<open>start\<close> be 0 when \<open>a\<close> is empty and the number \<open>a\<close> parses to otherwise, and \<open>stop\<close> be
  \<open>fileSize - 1\<close> when \<open>b\<close> is empty and the number \<open>b\<close> parses to otherwise. If
  \<open>0 \<le> start \<le> stop < fileSize\<close> and \<open>stop - start + 1\<close> is at most the maximum range
  size (and the file has \<open>fileSize\<close> bytes and the seek succeeds), the response has
  status 206, \<open>Content-Range: bytes start-stop/fileSize\<close>, \<open>Content-Length\<close> equal to
  \<open>stop - start + 1\<close>, and as body the bytes of the file at the positions \<open>start\<close> to
  \<open>stop\<close>.
\<close>

theorem serveRange_partial_content:
  assumes "CHR ''-'' \<notin> set a" and "CHR ''-'' \<notin> set b"
    and "if a = [] then start = 0 else ParseInt a = Some start"
    and "if b = [] then stop = fileSize - 1 else ParseInt b = Some stop"
    and "0 \<le> start" and "start \<le> stop" and "stop < fileSize"
    and "stop - start + 1 \<le> maxRangeSize h"
    and "fileSize = int (length (f_bytes fl))" and "\<not> f_seekFails fl"
  shows "status (serveRange h env fl fileSize (''bytes='' @ a @ ''-'' @ b) filename newContext) = 206
    \<and> getHeader ''Content-Range''
          (serveRange h env fl fileSize (''bytes='' @ a @ ''-'' @ b) filename newContext)
        = Some (''bytes '' @ itoa start @ ''-'' @ itoa stop @ ''/'' @ itoa fileSize)
    \<and> getHeader ''Content-Length''
          (serveRange h env fl fileSize (''bytes='' @ a @ ''-'' @ b) filename newContext)
        = Some (itoa (stop - start + 1))
    \<and> body (serveRange h env fl fileSize (''bytes='' @ a @ ''-'' @ b) filename newContext)
        = Bytes (map (\<lambda>i. f_bytes fl ! i) [nat start ..< nat stop + 1])"
proof -
  have n: "nat start + nat (stop - start + 1) = nat stop + 1"
    using assms(5,6) by simp
  have "nat start + nat (stop - start + 1) \<le> length (f_bytes fl)"
    using assms(5,6,7,9) by simp
  then have bytes: "take (nat (stop - start + 1)) (drop (nat start) (f_bytes fl))
      = map (\<lambda>i. f_bytes fl ! i) [nat start ..< nat stop + 1]"
    using take_drop_nth [of "nat start" "nat (stop - start + 1)" "f_bytes fl"] n by simp
  let ?c6 = "Status 206
                    (Header ''Accept-Ranges'' ''bytes''
                      (Header ''Content-Disposition''
                         (''inline; filename='' @ [CHR 0x22] @ filename @ [CHR 0x22])
                        (Header ''Content-Type'' (getMimeType env filename)
                          (Header ''Content-Length'' (itoa (stop - start + 1))
                            (Header ''Content-Range''
                               (''bytes '' @ itoa start @ ''-'' @ itoa stop @ ''/'' @ itoa fileSize)
                               newContext)))))"
  have f: "serveRange h env fl fileSize (''bytes='' @ a @ ''-'' @ b) filename newContext
      = ?c6\<lparr>body := Bytes (take (nat (stop - start + 1)) (drop (nat start) (f_bytes fl)))\<rparr>"
    unfolding serveRange_fields [OF assms(1-4)]
    using assms(6,7,8,10) by (simp add: Let_def)
  have st: "status (?c6\<lparr>body := Bytes (take (nat (stop - start + 1)) (drop (nat start) (f_bytes fl)))\<rparr>) = 206"
    by (simp add: Status_def)
  have cr: "getHeader ''Content-Range''
        (?c6\<lparr>body := Bytes (take (nat (stop - start + 1)) (drop (nat start) (f_bytes fl)))\<rparr>)
      = Some (''bytes '' @ itoa start @ ''-'' @ itoa stop @ ''/'' @ itoa fileSize)"
    by (simp add: getHeader_body getHeader_Header)
  have cl: "getHeader ''Content-Length''
        (?c6\<lparr>body := Bytes (take (nat (stop - start + 1)) (drop (nat start) (f_bytes fl)))\<rparr>)
      = Some (itoa (stop - start + 1))"
    by (simp add: getHeader_body getHeader_Header)
  have bd: "body (?c6\<lparr>body := Bytes (take (nat (stop - start + 1)) (drop (nat start) (f_bytes fl)))\<rparr>)
      = Bytes (map (\<lambda>i. f_bytes fl ! i) [nat start ..< nat stop + 1])"
  proof -
    have "body (?c6\<lparr>body := Bytes (take (nat (stop - start + 1)) (drop (nat start) (f_bytes fl)))\<rparr>)
        = Bytes (take (nat (stop - start + 1)) (drop (nat start) (f_bytes fl)))"
      by simp
    then show ?thesis
      by (simp only: bytes)
  qed
  show ?thesis
    unfolding f using st cr cl bd by (intro conjI)
qed

theorem serveRange_partial_content_witness:
  "CHR ''-'' \<notin> set ''6'' \<and> ParseInt ''6'' = Some 6
   \<and> (6::int) \<le> 11 - 1 \<and> (11::int) - 1 < 11 \<and> (11::int) - 1 - 6 + 1 \<le> maxRangeSize ex_handler
   \<and> (11::int) = int (length (f_bytes ex_file_a)) \<and> \<not> f_seekFails ex_file_a
   \<and> status (serveRange ex_handler ex_os ex_file_a 11 ''bytes=6-'' ''a.mp3'' newContext) = 206
   \<and> getHeader ''Content-Range'' (serveRange ex_handler ex_os ex_file_a 11 ''bytes=6-'' ''a.mp3'' newContext)
       = Some ''bytes 6-10/11''
   \<and> getHeader ''Content-Length'' (serveRange ex_handler ex_os ex_file_a 11 ''bytes=6-'' ''a.mp3'' newContext)
       = Some ''5''
   \<and> body (serveRange ex_handler ex_os ex_file_a 11 ''bytes=6-'' ''a.mp3'' newContext)
       = Bytes (bytes_of ''world'')"
proof -
  have a: "CHR ''-'' \<notin> set ''6''" and b: "CHR ''-'' \<notin> set ([] :: string)"
    by simp_all
  have p: "ParseInt ''6'' = Some 6"
    by (simp add: ParseInt_def isDigit_def digitsVal_def)
  have s: "if ''6'' = [] then (6::int) = 0 else ParseInt ''6'' = Some 6"
    using p by simp
  have e: "if ([] :: string) = [] then (10::int) = 11 - 1 else ParseInt [] = Some 10"
    by simp
  have m: "(10::int) - 6 + 1 \<le> maxRangeSize ex_handler"
    by (simp add: ex_handler_def NewStreamHandler_def)
  have l: "(11::int) = int (length (f_bytes ex_file_a))" and k: "\<not> f_seekFails ex_file_a"
    by (simp_all add: ex_file_a_def bytes_of_def)
  have v: "map (\<lambda>i. f_bytes ex_file_a ! i) [nat 6 ..< nat 10 + 1] = bytes_of ''world''"
    by (simp add: ex_file_a_def bytes_of_def upt_rec)
  have i: "itoa 6 = ''6''" "itoa 10 = ''10''" "itoa 11 = ''11''" "itoa (10 - 6 + 1) = ''5''"
    by (simp_all add: itoa_def)
  show ?thesis
    using serveRange_partial_content [OF a b s e _ _ _ m l k, where env = ex_os and filename = "''a.mp3''"]
      a p m l k v i
    by simp
qed

text \<open>
  C5, as stated, fails for ranges written with negative numbers: \<open>bytes=-10-20\<close> and
  \<open>bytes=5--3\<close> hold two dashes, \<open>strings.Split\<close> yields three parts, and the answer is
  400 with no \<open>Content-Range\<close> header, not 416.
\<close>

theorem negative_range_is_bad_request:
  "status (serveRange ex_handler ex_os ex_file_a 11 ''bytes=-10-20'' ''a.mp3'' newContext) = 400
   \<and> getHeader ''Content-Range'' (serveRange ex_handler ex_os ex_file_a 11 ''bytes=-10-20'' ''a.mp3'' newContext)
       = None
   \<and> status (serveRange ex_handler ex_os ex_file_a 11 ''bytes=5--3'' ''a.mp3'' newContext) = 400"
  by (simp add: serveRange_def TrimPrefix_def HasPrefix_def http_defs)

text \<open>
  C5, amended. For a range header \<open>bytes=a-b\<close> whose two fields contain no further dash
  and give \<open>start\<close> and \<open>stop\<close> (by default or by parsing), \<open>stop \<ge> fileSize\<close> or
  \<open>start > stop\<close> yields status 416 with \<open>Content-Range: bytes */fileSize\<close> and no body.
  A header whose range part does not hold exactly one dash, as every header with a negative
  number does, yields 400.
\<close>

theorem serveRange_unsatisfiable:
  "(CHR ''-'' \<notin> set a \<and> CHR ''-'' \<notin> set b
      \<and> (if a = [] then start = 0 else ParseInt a = Some start)
      \<and> (if b = [] then stop = fileSize - 1 else ParseInt b = Some stop)
      \<and> (stop \<ge> fileSize \<or> start > stop)
    \<longrightarrow> status (serveRange h env fl fileSize (''bytes='' @ a @ ''-'' @ b) filename newContext) = 416
        \<and> getHeader ''Content-Range''
             (serveRange h env fl fileSize (''bytes='' @ a @ ''-'' @ b) filename newContext)
           = Some (''bytes */'' @ itoa fileSize)
        \<and> body (serveRange h env fl fileSize (''bytes='' @ a @ ''-'' @ b) filename newContext) = NoBody)
   \<and> (length (filter (\<lambda>c. c = CHR ''-'') (TrimPrefix rangeHeader ''bytes='')) \<noteq> 1
    \<longrightarrow> status (serveRange h env fl fileSize rangeHeader filename newContext) = 400)"
proof (intro conjI impI)
  assume p: "CHR ''-'' \<notin> set a \<and> CHR ''-'' \<notin> set b
      \<and> (if a = [] then start = 0 else ParseInt a = Some start)
      \<and> (if b = [] then stop = fileSize - 1 else ParseInt b = Some stop)
      \<and> (stop \<ge> fileSize \<or> start > stop)"
  then have f: "serveRange h env fl fileSize (''bytes='' @ a @ ''-'' @ b) filename newContext
      = Status 416 (Header ''Content-Range'' (''bytes */'' @ itoa fileSize) newContext)"
    using serveRange_fields [of a b start stop fileSize h env fl filename newContext] by auto
  show "status (serveRange h env fl fileSize (''bytes='' @ a @ ''-'' @ b) filename newContext) = 416"
    unfolding f by (simp add: Status_def)
  show "getHeader ''Content-Range''
             (serveRange h env fl fileSize (''bytes='' @ a @ ''-'' @ b) filename newContext)
           = Some (''bytes */'' @ itoa fileSize)"
    unfolding f by (simp add: getHeader_Header)
  show "body (serveRange h env fl fileSize (''bytes='' @ a @ ''-'' @ b) filename newContext) = NoBody"
    unfolding f by (simp add: http_defs)
next
  assume "length (filter (\<lambda>c. c = CHR ''-'') (TrimPrefix rangeHeader ''bytes='')) \<noteq> 1"
  then have "length (Split (TrimPrefix rangeHeader ''bytes='') (CHR ''-'')) \<noteq> 2"
    by (simp add: length_Split)
  then show "status (serveRange h env fl fileSize rangeHeader filename newContext) = 400"
    by (simp add: serveRange_def Let_def http_defs)
qed

theorem serveRange_unsatisfiable_witness:
  "CHR ''-'' \<notin> set ''5'' \<and> CHR ''-'' \<notin> set ''20''
   \<and> ParseInt ''5'' = Some 5 \<and> ParseInt ''20'' = Some 20 \<and> (20::int) \<ge> 11
   \<and> status (serveRange ex_handler ex_os ex_file_a 11 ''bytes=5-20'' ''a.mp3'' newContext) = 416
   \<and> getHeader ''Content-Range'' (serveRange ex_handler ex_os ex_file_a 11 ''bytes=5-20'' ''a.mp3'' newContext)
       = Some ''bytes */11''
   \<and> body (serveRange ex_handler ex_os ex_file_a 11 ''bytes=5-20'' ''a.mp3'' newContext) = NoBody
   \<and> length (filter (\<lambda>c. c = CHR ''-'') (TrimPrefix ''bytes=-10-20'' ''bytes='')) = 2
   \<and> status (serveRange ex_handler ex_os ex_file_a 11 ''bytes=-10-20'' ''a.mp3'' newContext) = 400"
proof -
  have p: "ParseInt ''5'' = Some 5" "ParseInt ''20'' = Some 20"
    by (simp_all add: ParseInt_def isDigit_def digitsVal_def)
  have c: "length (filter (\<lambda>c. c = CHR ''-'') (TrimPrefix ''bytes=-10-20'' ''bytes='')) = 2"
    by (simp add: TrimPrefix_def HasPrefix_def)
  have i: "itoa 11 = ''11''"
    by (simp add: itoa_def)
  show ?thesis
    using serveRange_unsatisfiable [where a = "''5''" and b = "''20''" and start = 5 and stop = 20
            and fileSize = 11 and h = ex_handler and env = ex_os and fl = ex_file_a
            and filename = "''a.mp3''" and rangeHeader = "''bytes=-10-20''"] p c i
    by simp
qed

end
